theory Spec2Isabelle
  imports Main
begin

chapter \<open>The program\<close>

section \<open>Strings and constants\<close>

text \<open>
  A JavaScript string is modelled as a \<^typ>\<open>string\<close>: the list of its code units, each an
  8-bit \<^typ>\<open>char\<close> (the code units U+0000 .. U+00FF). Indices and lengths are counted in
  code units, as \<open>String.prototype.length\<close> does.
\<close>

definition CHUNK_SIZE :: nat where
  "CHUNK_SIZE = 150000"

definition CONTEXT_WINDOW :: nat where
  "CONTEXT_WINDOW = 500"

text \<open>
  \<open>s.substring(a, b)\<close> for non-negative integer arguments: both are clamped to the length
  and swapped when \<open>a > b\<close>.
\<close>

definition substring :: "'a list \<Rightarrow> nat \<Rightarrow> nat \<Rightarrow> 'a list" where
  "substring s a b = drop (min a b) (take (max a b) s)"

section \<open>Chunks\<close>

record pageReference =
  term' :: string
  context' :: string

record chunk =
  id' :: nat
  text' :: string
  startChar :: nat
  endChar :: nat
  startPage :: nat
  endPage :: "nat option"
  pageReferences :: "pageReference list"
  sectionHeading :: "string option"
  topics :: "string list"

text \<open>
  The methods of \<open>this\<close> that only annotate a chunk. Each is a function of the chunk text
  (and, for the page references, of the page range); their results are stored in the chunk
  and are not read again by the chunker, so they are taken as parameters: what is proved
  about the chunker holds for every choice of them.
\<close>

record annotators =
  extractPageReferences :: "string \<Rightarrow> nat \<Rightarrow> nat option \<Rightarrow> pageReference list"
  detectSectionHeading :: "string \<Rightarrow> string option"
  extractTopics :: "string \<Rightarrow> string list"

section \<open>Character-to-page map\<close>

text \<open>
  \<open>pageData\<close> is an object keyed by page number; it is modelled as an association list.
  \<open>Object.keys(pageData).sort((a, b) => parseInt(a) - parseInt(b))\<close> lists each key once,
  in ascending numeric order.
\<close>

type_synonym pageData = "(nat \<times> string) list"

definition sortedPages :: "pageData \<Rightarrow> nat list" where
  "sortedPages pageData = sort (remdups (map fst pageData))"

text \<open>\<open>pageData[pageNum] || ''\<close>\<close>

definition pageTextOf :: "pageData \<Rightarrow> nat \<Rightarrow> string" where
  "pageTextOf pageData pageNum = (case map_of pageData pageNum of None \<Rightarrow> [] | Some t \<Rightarrow> t)"

text \<open>
  The inner loop of \<open>createCharToPageMap\<close>:
  \<open>for (let i = 0; i < pageLength && currentChar < fullText.length; i++)\<close>.
  The third argument is the number of iterations left, \<open>pageLength - i\<close>; the state is the
  map built so far and \<open>currentChar\<close>.
\<close>

fun fillPage :: "nat \<Rightarrow> nat \<Rightarrow> nat \<Rightarrow> (nat \<rightharpoonup> nat) \<times> nat \<Rightarrow> (nat \<rightharpoonup> nat) \<times> nat" where
  "fillPage L pageNum 0 (m, currentChar) = (m, currentChar)"
| "fillPage L pageNum (Suc k) (m, currentChar) =
     (if currentChar < L then fillPage L pageNum k (m(currentChar \<mapsto> pageNum), Suc currentChar)
      else (m, currentChar))"

definition createCharToPageMapState :: "string \<Rightarrow> pageData \<Rightarrow> (nat \<rightharpoonup> nat) \<times> nat" where
  "createCharToPageMapState fullText pageData =
     foldl (\<lambda>st pageNum. fillPage (length fullText) pageNum (length (pageTextOf pageData pageNum) + 1) st)
       (Map.empty, 0) (sortedPages pageData)"

definition createCharToPageMap :: "string \<Rightarrow> pageData \<Rightarrow> (nat \<rightharpoonup> nat)" where
  "createCharToPageMap fullText pageData = fst (createCharToPageMapState fullText pageData)"

section \<open>Chunker\<close>

text \<open>
  \<open>charToPageMap[i] || 1\<close> and \<open>charToPageMap[endChar - 1] || totalPages\<close>: the fallback
  is taken when the entry is missing or is the falsy number 0. \<open>totalPages\<close> is
  \<open>undefined\<close> (\<open>None\<close>) in the extraction results that carry no page count.
\<close>

definition orOne :: "nat option \<Rightarrow> nat" where
  "orOne v = (case v of None \<Rightarrow> 1 | Some n \<Rightarrow> (if n = 0 then 1 else n))"

definition orElse :: "nat option \<Rightarrow> nat option \<Rightarrow> nat option" where
  "orElse v d = (case v of None \<Rightarrow> d | Some n \<Rightarrow> (if n = 0 then d else Some n))"

function chunkLoop :: "annotators \<Rightarrow> string \<Rightarrow> (nat \<rightharpoonup> nat) \<Rightarrow> nat option \<Rightarrow> nat \<Rightarrow> chunk list \<Rightarrow> chunk list" where
  "chunkLoop this fullText charToPageMap totalPages i chunks =
     (if i < length fullText then
        (let chunkText = substring fullText i (i + CHUNK_SIZE);
             endChar = min (i + CHUNK_SIZE) (length fullText);
             startPage = orOne (charToPageMap i);
             endPage = orElse (charToPageMap (endChar - 1)) totalPages;
             pageReferences = extractPageReferences this chunkText startPage endPage;
             sectionHeading = detectSectionHeading this chunkText
         in chunkLoop this fullText charToPageMap totalPages (i + CHUNK_SIZE)
              (chunks @ [\<lparr>id' = length chunks, text' = chunkText, startChar = i, endChar = endChar,
                          startPage = startPage, endPage = endPage, pageReferences = pageReferences,
                          sectionHeading = sectionHeading, topics = extractTopics this chunkText\<rparr>]))
      else chunks)"
  by pat_completeness auto
termination
  by (relation "measure (\<lambda>(this, fullText, charToPageMap, totalPages, i, chunks). length fullText - i)")
     (auto simp: CHUNK_SIZE_def)

definition createPageAwareChunks :: "annotators \<Rightarrow> string \<Rightarrow> pageData \<Rightarrow> nat option \<Rightarrow> chunk list" where
  "createPageAwareChunks this fullText pageData totalPages =
     chunkLoop this fullText (createCharToPageMap fullText pageData) totalPages 0 []"

text \<open>Annotators that record nothing, for concrete runs of the chunker.\<close>

definition noAnnotations :: annotators where
  "noAnnotations = \<lparr>extractPageReferences = (\<lambda>t s e. []), detectSectionHeading = (\<lambda>t. None),
     extractTopics = (\<lambda>t. [])\<rparr>"

section \<open>Regular expressions\<close>

text \<open>
  The character classes of the source's regular expressions. \<open>\s\<close> is the white space
  and line terminator code units below U+0100; \<open>String.prototype.trim\<close> strips the same
  set.
\<close>

definition isLower :: "char \<Rightarrow> bool" where
  "isLower c = (c \<in> set ''abcdefghijklmnopqrstuvwxyz'')"

definition isUpper :: "char \<Rightarrow> bool" where
  "isUpper c = (c \<in> set ''ABCDEFGHIJKLMNOPQRSTUVWXYZ'')"

definition isLetter :: "char \<Rightarrow> bool" where
  "isLetter c = (isLower c \<or> isUpper c)"

definition isDigit :: "char \<Rightarrow> bool" where
  "isDigit c = (c \<in> set ''0123456789'')"

definition isPunct :: "char \<Rightarrow> bool" where
  "isPunct c = (c \<in> set ''.,:;!?'')"

definition isSpace :: "char \<Rightarrow> bool" where
  "isSpace c = (c \<in> {CHR 0x09, CHR 0x0A, CHR 0x0B, CHR 0x0C, CHR 0x0D, CHR 0x20, CHR 0xA0})"

definition isNewline :: "char \<Rightarrow> bool" where
  "isNewline c = (c = CHR 0x0A)"

text \<open>
  The regular expressions the source uses: a character class, sequence, alternation, a
  greedy repetition \<open>[class]{n,}\<close> of a class (\<open>\s+\<close> is \<open>Rep isSpace 1\<close>, \<open>\s*\<close> is
  \<open>Rep isSpace 0\<close>), a greedy optional \<open>r?\<close> and a capturing group.
\<close>

datatype regex =
    Eps
  | Cls "char \<Rightarrow> bool"
  | Seq regex regex
  | Alt regex regex
  | Rep "char \<Rightarrow> bool" nat
  | Opt regex
  | Grp regex

text \<open>
  \<open>ends r s\<close> lists, in the order a backtracking matcher tries them, the ways \<open>r\<close> matches
  a prefix of \<open>s\<close>: each entry is the captured groups (in the order the groups open) and
  the unmatched rest of \<open>s\<close>. Alternation tries the left branch first, the greedy
  quantifiers the longest repetition first. The first entry is the match that
  \<open>RegExp.prototype.exec\<close> reports at that position.
\<close>

fun ends :: "regex \<Rightarrow> string \<Rightarrow> (string list \<times> string) list" where
  "ends Eps s = [([], s)]"
| "ends (Cls P) s = (case s of [] \<Rightarrow> [] | c # cs \<Rightarrow> (if P c then [([], cs)] else []))"
| "ends (Seq r1 r2) s =
     concat (map (\<lambda>(g1, s1). map (\<lambda>(g2, s2). (g1 @ g2, s2)) (ends r2 s1)) (ends r1 s))"
| "ends (Alt r1 r2) s = ends r1 s @ ends r2 s"
| "ends (Rep P n) s = map (\<lambda>k. ([], drop k s)) (rev [n..<Suc (length (takeWhile P s))])"
| "ends (Opt r) s = ends r s @ [([], s)]"
| "ends (Grp r) s = map (\<lambda>(g, s'). (take (length s - length s') s # g, s')) (ends r s)"

definition seqs :: "regex list \<Rightarrow> regex" where
  "seqs rs = foldr Seq rs Eps"

fun alts :: "regex list \<Rightarrow> regex" where
  "alts [] = Cls (\<lambda>c. False)"
| "alts [r] = r"
| "alts (r # rs) = Alt r (alts rs)"

text \<open>A literal string, and a literal string under the \<open>i\<close> flag.\<close>

definition lit :: "string \<Rightarrow> regex" where
  "lit w = seqs (map (\<lambda>p. Cls (\<lambda>c. c = p)) w)"

definition asciiUpper :: "char \<Rightarrow> char" where
  "asciiUpper c =
     (case map_of (zip ''abcdefghijklmnopqrstuvwxyz'' ''ABCDEFGHIJKLMNOPQRSTUVWXYZ'') c of
        None \<Rightarrow> c | Some u \<Rightarrow> u)"

definition litCI :: "string \<Rightarrow> regex" where
  "litCI w = seqs (map (\<lambda>p. Cls (\<lambda>c. asciiUpper c = asciiUpper p)) w)"

text \<open>
  \<open>s.replace(r, f)\<close> for a regular expression with the \<open>g\<close> flag: the matches are found
  left to right, each search starting where the previous match ended (one code unit
  further after an empty match); \<open>f\<close> receives the matched text and the groups.
\<close>

function replaceAll :: "regex \<Rightarrow> (string \<Rightarrow> string list \<Rightarrow> string) \<Rightarrow> string \<Rightarrow> string" where
  "replaceAll r f s =
     (case ends r s of
        [] \<Rightarrow> (case s of [] \<Rightarrow> [] | c # cs \<Rightarrow> c # replaceAll r f cs)
      | (g, rest) # _ \<Rightarrow>
          (if length rest < length s
           then f (take (length s - length rest) s) g @ replaceAll r f rest
           else f [] g @ (case s of [] \<Rightarrow> [] | c # cs \<Rightarrow> c # replaceAll r f cs)))"
  by pat_completeness auto
termination
  by (relation "measure (\<lambda>(r, f, s). length s)") auto

declare replaceAll.simps [simp del]

text \<open>A replacement string: literal text and group references \<open>$1\<close>, \<open>$2\<close>.\<close>

datatype repl = Txt string | Ref nat

fun expand :: "repl list \<Rightarrow> string \<Rightarrow> string list \<Rightarrow> string" where
  "expand [] m g = []"
| "expand (Txt t # ps) m g = t @ expand ps m g"
| "expand (Ref n # ps) m g = (if 0 < n \<and> n \<le> length g then g ! (n - 1) else []) @ expand ps m g"

definition trim :: "string \<Rightarrow> string" where
  "trim s = rev (dropWhile isSpace (rev (dropWhile isSpace s)))"

section \<open>Text reconstructor\<close>

text \<open>\<open>[a-z]\<close> and \<open>\s+\<close>; the callback \<open>match => match.replace(/\s+/g, '')\<close>.\<close>

definition lower :: regex where
  "lower = Cls isLower"

definition spaces :: regex where
  "spaces = Rep isSpace 1"

definition removeSpaces :: "string \<Rightarrow> string list \<Rightarrow> string" where
  "removeSpaces m g = replaceAll spaces (\<lambda>m g. []) m"

text \<open>
  Step 4, the patterns in the order of the source:
  \<open>/([a-z])([A-Z])/g\<close>, \<open>/([a-z])(and|the|of|to|in|for|with|are|can|will|may)/g\<close>,
  \<open>/(ing|tion|ed|er|ly|ness)([a-z])/g\<close>, \<open>/([a-zA-Z])([0-9])/g\<close>, \<open>/([0-9])([a-zA-Z])/g\<close>,
  \<open>/([a-zA-Z])([.,:;!?])/g\<close> (replaced by \<open>$1$2\<close>) and \<open>/([.,:;!?])([a-zA-Z])/g\<close>; all but
  the sixth are replaced by \<open>$1 $2\<close>.
\<close>

definition wordBoundaryPatterns :: "(regex \<times> repl list) list" where
  "wordBoundaryPatterns =
   [(seqs [Grp lower, Grp (Cls isUpper)], [Ref 1, Txt '' '', Ref 2]),
    (seqs [Grp lower, Grp (alts (map lit [''and'', ''the'', ''of'', ''to'', ''in'', ''for'', ''with'',
        ''are'', ''can'', ''will'', ''may'']))], [Ref 1, Txt '' '', Ref 2]),
    (seqs [Grp (alts (map lit [''ing'', ''tion'', ''ed'', ''er'', ''ly'', ''ness''])), Grp lower],
       [Ref 1, Txt '' '', Ref 2]),
    (seqs [Grp (Cls isLetter), Grp (Cls isDigit)], [Ref 1, Txt '' '', Ref 2]),
    (seqs [Grp (Cls isDigit), Grp (Cls isLetter)], [Ref 1, Txt '' '', Ref 2]),
    (seqs [Grp (Cls isLetter), Grp (Cls isPunct)], [Ref 1, Ref 2]),
    (seqs [Grp (Cls isPunct), Grp (Cls isLetter)], [Ref 1, Txt '' '', Ref 2])]"

text \<open>
  Step 5: \<open>/placements?/gi\<close>, \<open>/anchors?/gi\<close>, \<open>/protection/gi\<close>, \<open>/carabiners?/gi\<close>,
  \<open>/generally/gi\<close>, \<open>/stronger/gi\<close>, \<open>/smaller/gi\<close>, \<open>/larger/gi\<close>, \<open>/important/gi\<close>,
  each replaced by its lower-case singular.
\<close>

definition climbingFixes :: "(regex \<times> repl list) list" where
  "climbingFixes =
   [(seqs [litCI ''placement'', Opt (litCI ''s'')], [Txt ''placement'']),
    (seqs [litCI ''anchor'', Opt (litCI ''s'')], [Txt ''anchor'']),
    (litCI ''protection'', [Txt ''protection'']),
    (seqs [litCI ''carabiner'', Opt (litCI ''s'')], [Txt ''carabiner'']),
    (litCI ''generally'', [Txt ''generally'']),
    (litCI ''stronger'', [Txt ''stronger'']),
    (litCI ''smaller'', [Txt ''smaller'']),
    (litCI ''larger'', [Txt ''larger'']),
    (litCI ''important'', [Txt ''important''])]"

text \<open>Step 7: each key is used as \<open>new RegExp(key, 'gi')\<close>, in the order of the object.\<close>

definition commonWordsMap :: "(string \<times> string) list" where
  "commonWordsMap =
   [(''gene rally'', ''generally''),
    (''place ment'', ''placement''),
    (''place ments'', ''placements''),
    (''import ant'', ''important''),
    (''strong er'', ''stronger''),
    (''small er'', ''smaller''),
    (''larg er'', ''larger''),
    (''fig ure'', ''figure''),
    (''anch or'', ''anchor''),
    (''anch ors'', ''anchors''),
    (''protect ion'', ''protection''),
    (''cara bin er'', ''carabiner''),
    (''cara bin ers'', ''carabiners'')]"

text \<open>The \<open>forEach\<close> loops that apply a list of replacements in order.\<close>

definition applyAll :: "(regex \<times> repl list) list \<Rightarrow> string \<Rightarrow> string" where
  "applyAll ps s = foldl (\<lambda>t (pattern, replacement). replaceAll pattern (expand replacement) t) s ps"

text \<open>
  Steps 1 to 3: \<open>/([a-z])\s+([a-z])\s+([a-z])/g\<close> with the callback,
  \<open>/([a-z])\s+([a-z])/g\<close> replaced by \<open>$1$2\<close>, and the same pattern with five letters, with
  the callback.
\<close>

definition step1 :: "string \<Rightarrow> string" where
  "step1 = replaceAll (seqs [Grp lower, spaces, Grp lower, spaces, Grp lower]) removeSpaces"

definition step2 :: "string \<Rightarrow> string" where
  "step2 = replaceAll (seqs [Grp lower, spaces, Grp lower]) (expand [Ref 1, Ref 2])"

definition step3 :: "string \<Rightarrow> string" where
  "step3 = replaceAll (seqs [Grp lower, spaces, Grp lower, spaces, Grp lower, spaces, Grp lower,
     spaces, Grp lower]) removeSpaces"

definition step4 :: "string \<Rightarrow> string" where
  "step4 = applyAll wordBoundaryPatterns"

definition step5 :: "string \<Rightarrow> string" where
  "step5 = applyAll climbingFixes"

text \<open>
  Step 6: \<open>/\s{2,}/g\<close> replaced by a space, \<open>/\s*\n\s*/g\<close> by a line feed, \<open>/\n{3,}/g\<close>
  by two line feeds, then \<open>trim\<close>.
\<close>

definition lineBreak :: regex where
  "lineBreak = seqs [Rep isSpace 0, Cls isNewline, Rep isSpace 0]"

definition step6 :: "string \<Rightarrow> string" where
  "step6 s =
     trim (replaceAll (Rep isNewline 3) (expand [Txt [CHR 0x0A, CHR 0x0A]])
       (replaceAll lineBreak (expand [Txt [CHR 0x0A]])
         (replaceAll (Rep isSpace 2) (expand [Txt '' '']) s)))"

definition step7 :: "string \<Rightarrow> string" where
  "step7 = applyAll (map (\<lambda>(fragmented, word). (litCI fragmented, [Txt word])) commonWordsMap)"

text \<open>
  \<open>reconstructText(rawText)\<close>. The argument is \<open>None\<close> for a falsy value that is not a
  string (\<open>null\<close>, \<open>undefined\<close>); the guard \<open>!rawText || rawText.length === 0\<close> returns the
  empty string for these and for the empty string.
\<close>

definition reconstructText :: "string option \<Rightarrow> string" where
  "reconstructText rawText =
     (case rawText of
        None \<Rightarrow> []
      | Some raw \<Rightarrow>
          (if raw = [] then []
           else step7 (step6 (step5 (step4 (step3 (step2 (step1 raw))))))))"

section \<open>String helpers\<close>

text \<open>
  \<open>String.prototype.toLowerCase\<close> on the code units below U+0100: the ASCII capitals and
  the Latin-1 capitals U+00C0 .. U+00DE (without the multiplication sign U+00D7) move up
  by 32.
\<close>

definition toLowerChar :: "char \<Rightarrow> char" where
  "toLowerChar c =
     (let n = (of_char c :: nat)
      in if (65 \<le> n \<and> n \<le> 90) \<or> (192 \<le> n \<and> n \<le> 222 \<and> n \<noteq> 215) then char_of (n + 32) else c)"

definition toLowerCase :: "string \<Rightarrow> string" where
  "toLowerCase s = map toLowerChar s"

definition startsWith :: "string \<Rightarrow> string \<Rightarrow> bool" where
  "startsWith s w = (take (length w) s = w)"

text \<open>\<open>s.includes(w)\<close> and \<open>s.indexOf(w)\<close>; \<open>None\<close> is the result \<open>-1\<close>.\<close>

fun includes' :: "string \<Rightarrow> string \<Rightarrow> bool" where
  "includes' [] w = (w = [])"
| "includes' (c # cs) w = (startsWith (c # cs) w \<or> includes' cs w)"

fun indexOf :: "string \<Rightarrow> string \<Rightarrow> nat option" where
  "indexOf [] w = (if w = [] then Some 0 else None)"
| "indexOf (c # cs) w = (if startsWith (c # cs) w then Some 0 else map_option Suc (indexOf cs w))"

text \<open>\<open>xs.join(sep)\<close>\<close>

fun joinWith :: "string \<Rightarrow> string list \<Rightarrow> string" where
  "joinWith sep [] = []"
| "joinWith sep [x] = x"
| "joinWith sep (x # xs) = x @ sep @ joinWith sep xs"

text \<open>
  \<open>s.split(/\W+/)\<close>: the pieces between the maximal runs of non-word code units, with
  an empty piece where the string starts or ends with such a run.
\<close>

definition isWordChar :: "char \<Rightarrow> bool" where
  "isWordChar c = (isLetter c \<or> isDigit c \<or> c = CHR ''_'')"

function splitNonWord :: "string \<Rightarrow> string \<Rightarrow> string list" where
  "splitNonWord piece [] = [piece]"
| "splitNonWord piece (c # cs) =
     (if isWordChar c then splitNonWord (piece @ [c]) cs
      else piece # splitNonWord [] (dropWhile (\<lambda>d. \<not> isWordChar d) cs))"
  by pat_completeness auto
termination
  by (relation "measure (\<lambda>(piece, s). length s)") (auto simp: length_dropWhile_le less_Suc_eq_le)

text \<open>\<open>s.toLowerCase().split(/\W+/).filter(w => w.length > 2)\<close>\<close>

definition tokenize :: "string \<Rightarrow> string list" where
  "tokenize s = filter (\<lambda>w. length w > 2) (splitNonWord [] (toLowerCase s))"

text \<open>\<open>s.replace(pattern, replacement)\<close> for a string pattern: the first occurrence only.\<close>

fun replaceFirst :: "string \<Rightarrow> string \<Rightarrow> string \<Rightarrow> string" where
  "replaceFirst pattern replacement [] = (if pattern = [] then replacement else [])"
| "replaceFirst pattern replacement (c # cs) =
     (if startsWith (c # cs) pattern then replacement @ drop (length pattern) (c # cs)
      else c # replaceFirst pattern replacement cs)"

definition endsWith :: "string \<Rightarrow> string \<Rightarrow> bool" where
  "endsWith s w = startsWith (rev s) (rev w)"

text \<open>\<open>s.split(sep)\<close> for a separator of one character.\<close>

fun splitOn :: "char \<Rightarrow> string \<Rightarrow> string list" where
  "splitOn sep [] = [[]]"
| "splitOn sep (c # cs) =
     (if c = sep then [] # splitOn sep cs
      else (case splitOn sep cs of
              [] \<Rightarrow> [[c]]
            | piece # pieces \<Rightarrow> (c # piece) # pieces))"

text \<open>
  The names every object literal inherits from \<open>Object.prototype\<close>. A lookup \<open>obj[key]\<close>
  with one of these keys on an object that has no own property of that name yields the
  inherited function (for \<open>__proto__\<close>, the prototype object): a truthy value that is
  neither a number nor an array.
\<close>

definition objectPrototypeKeys :: "string list" where
  "objectPrototypeKeys =
     [''constructor'', ''__defineGetter__'', ''__defineSetter__'', ''hasOwnProperty'',
      ''__lookupGetter__'', ''__lookupSetter__'', ''isPrototypeOf'', ''propertyIsEnumerable'',
      ''toString'', ''valueOf'', ''__proto__'', ''toLocaleString'']"

section \<open>Extraction methods\<close>

text \<open>
  What an extraction method resolves to: the empty string \<open>''\<close>, or an object with
  \<open>text\<close>, \<open>pageData\<close> and, unless it reports a failure, \<open>totalPages\<close>.
\<close>

datatype extractionResult =
    EmptyString
  | Extraction string pageData "nat option"

fun resultText :: "extractionResult \<Rightarrow> string option" where
  "resultText EmptyString = None"
| "resultText (Extraction t pd tp) = Some t"

text \<open>
  The PdfReader parser calls back once per item, with the page number or the text of the
  item, and finally with an error or with no item (end of document). A run of the parser
  is the list of its items and how it ended. \<open>item.page\<close> and \<open>item.text\<close> are \<open>None\<close>
  when the item has no such field.
\<close>

datatype readerItem = ReaderItem "nat option" "string option"

datatype readerEnd = ReaderError | EndOfDocument

definition setPage :: "nat \<Rightarrow> string \<Rightarrow> pageData \<Rightarrow> pageData" where
  "setPage pageNum t pageData = (pageNum, t) # filter (\<lambda>e. fst e \<noteq> pageNum) pageData"

fun readerItemStep :: "pageData \<times> nat \<Rightarrow> readerItem \<Rightarrow> pageData \<times> nat" where
  "readerItemStep (pageText, currentPage) (ReaderItem page itemText) =
     (let (pageText1, currentPage1) =
            (case page of
               None \<Rightarrow> (pageText, currentPage)
             | Some p \<Rightarrow>
                 (if p = 0 then (pageText, currentPage)
                  else (if pageTextOf pageText p = [] then setPage p [] pageText else pageText, p)))
      in (case itemText of
            None \<Rightarrow> (pageText1, currentPage1)
          | Some t \<Rightarrow>
              (if t = [] then (pageText1, currentPage1)
               else (setPage currentPage1 (pageTextOf pageText1 currentPage1 @ t @ '' '') pageText1,
                     currentPage1))))"

definition extractTextWithPdfReader :: "readerItem list \<times> readerEnd \<Rightarrow> extractionResult" where
  "extractTextWithPdfReader run =
     (case snd run of
        ReaderError \<Rightarrow> Extraction [] [] None
      | EndOfDocument \<Rightarrow>
          (let pageText = fst (foldl readerItemStep ([], 0) (fst run));
               fullText = trim (joinWith [CHR 0x0A] (map (pageTextOf pageText) (sortedPages pageText)))
           in Extraction fullText pageText (Some (length (sortedPages pageText)))))"

text \<open>
  The PDF2JSON parser reports a data error, or data, or \<open>parseBuffer\<close> throws. The data is
  \<open>pdfData.Pages\<close> (\<open>None\<close> when \<open>pdfData\<close> or its \<open>Pages\<close> is missing); a page is its
  \<open>Texts\<close>, a text item its \<open>R\<close>, a text run its \<open>T\<close>, each \<open>None\<close> when missing or not
  an array. \<open>decodeURIComponent\<close> is the JavaScript built-in, \<open>None\<close> where it throws.
\<close>

type_synonym textRun = "string option"
type_synonym textItem = "textRun list option"
type_synonym pdfPage = "textItem list option"

datatype pdf2jsonOutcome =
    DataError
  | DataReady "pdfPage list option"
  | ParseBufferThrows

definition cleanRun :: "string \<Rightarrow> string" where
  "cleanRun s = trim (replaceAll (Rep isSpace 2) (expand [Txt '' '']) s)"

definition runText :: "(string \<Rightarrow> string option) \<Rightarrow> string \<Rightarrow> textRun \<Rightarrow> string" where
  "runText decodeURIComponent pageText textRun =
     (case textRun of
        None \<Rightarrow> pageText
      | Some T \<Rightarrow>
          (if T = [] then pageText
           else (let cleaned = (case decodeURIComponent T of
                                  Some decoded \<Rightarrow> cleanRun decoded
                                | None \<Rightarrow> cleanRun T)
                 in if cleaned = [] then pageText else pageText @ cleaned @ '' '')))"

definition pageTextOfPage :: "(string \<Rightarrow> string option) \<Rightarrow> pdfPage \<Rightarrow> string" where
  "pageTextOfPage decodeURIComponent page =
     (case page of
        None \<Rightarrow> []
      | Some Texts \<Rightarrow>
          foldl (\<lambda>pageText textItem.
                   (case textItem of
                      None \<Rightarrow> pageText
                    | Some R \<Rightarrow> foldl (runText decodeURIComponent) pageText R))
            [] Texts)"

text \<open>The \<open>forEach\<close> over the pages: the state is \<open>fullText\<close>, \<open>pageData\<close> and the next
  \<open>pageNum\<close>.\<close>

definition pdf2jsonPageStep ::
  "(string \<Rightarrow> string option) \<Rightarrow> string \<times> pageData \<times> nat \<Rightarrow> pdfPage \<Rightarrow> string \<times> pageData \<times> nat" where
  "pdf2jsonPageStep decodeURIComponent st page =
     (case st of (fullText, pageData, pageNum) \<Rightarrow>
        (let pageText = pageTextOfPage decodeURIComponent page
         in (fullText @ pageText @ [CHR 0x0A], setPage pageNum (trim pageText) pageData, Suc pageNum)))"

definition extractTextWithPDF2JSON ::
  "(string \<Rightarrow> string option) \<Rightarrow> pdf2jsonOutcome \<Rightarrow> extractionResult" where
  "extractTextWithPDF2JSON decodeURIComponent outcome =
     (case outcome of
        DataError \<Rightarrow> EmptyString
      | ParseBufferThrows \<Rightarrow> EmptyString
      | DataReady pdfData \<Rightarrow>
          (let (fullText, pageData, pageNum) =
                 (case pdfData of
                    None \<Rightarrow> ([], [], 1)
                  | Some Pages \<Rightarrow> foldl (pdf2jsonPageStep decodeURIComponent) ([], [], 1) Pages);
               cleanedText = reconstructText (Some fullText)
           in Extraction cleanedText pageData (Some (length (sortedPages pageData)))))"

section \<open>Search index\<close>

datatype cause = ReadFileFailed | TypeError | WriteFileFailed

text \<open>
  \<open>createSearchIndex\<close>. The index is an object literal. For a word that is not yet an own
  property, \<open>index[word]\<close> is \<open>undefined\<close> unless the word is an inherited name, in which
  case it is the inherited value, the entry is not initialised and \<open>.push\<close> is not a
  function.
\<close>

type_synonym searchIndex = "(string \<times> nat list) list"

definition indexWord :: "nat \<Rightarrow> cause + searchIndex \<Rightarrow> string \<Rightarrow> cause + searchIndex" where
  "indexWord chunkId acc word =
     (case acc of
        Inl e \<Rightarrow> Inl e
      | Inr index \<Rightarrow>
          (case map_of index word of
             Some ids \<Rightarrow> Inr (map (\<lambda>(w, l). if w = word then (w, l @ [chunkId]) else (w, l)) index)
           | None \<Rightarrow>
               (if word \<in> set objectPrototypeKeys then Inl TypeError
                else Inr (index @ [(word, [chunkId])]))))"

definition createSearchIndex :: "string \<Rightarrow> chunk list \<Rightarrow> cause + searchIndex" where
  "createSearchIndex fullText textChunks =
     foldl (\<lambda>acc chunk. foldl (indexWord (id' chunk)) acc (tokenize (text' chunk))) (Inr []) textChunks"

section \<open>Comprehensive extraction\<close>

text \<open>
  A PDF buffer is modelled by what the two parsers report on it. The fields of the cached
  record are those of the source, prefixed with \<open>ec_\<close>. \<open>fs.readFile\<close> is modelled by its
  outcome (the buffer, or \<open>None\<close> when it throws) and \<open>fs.writeFile\<close> by whether it
  succeeds.
\<close>

record pdfBuffer =
  readerRun :: "readerItem list \<times> readerEnd"
  pdf2json :: pdf2jsonOutcome

record extractedContent =
  ec_chapterName :: string
  ec_extractedAt :: string
  ec_text :: string
  ec_totalPages :: "nat option"
  ec_pageData :: pageData
  ec_textChunks :: "chunk list"
  ec_searchIndex :: searchIndex

datatype extractionMethod = PdfReader | PDF2JSON

datatype error = ComprehensiveExtractionFailed cause

text \<open>
  What the pipeline does to its environment: it runs parsers on the buffer and writes a
  file into the cache directory. The world holds the parser runs so far, in order, and
  the files of the cache directory, the most recently written first.
\<close>

record world =
  parserCalls :: "extractionMethod list"
  cacheFiles :: "(string \<times> extractedContent) list"

text \<open>
  The calls \<open>this.extractTextWithPdfReader(pdfBuffer)\<close> and
  \<open>this.extractTextWithPDF2JSON(pdfBuffer)\<close>: each runs its parser on the buffer and
  resolves to what the extraction method makes of the parser's report.
\<close>

definition callPdfReader :: "pdfBuffer \<Rightarrow> world \<Rightarrow> extractionResult \<times> world" where
  "callPdfReader buffer w =
     (extractTextWithPdfReader (readerRun buffer), w\<lparr>parserCalls := parserCalls w @ [PdfReader]\<rparr>)"

definition callPDF2JSON ::
  "(string \<Rightarrow> string option) \<Rightarrow> pdfBuffer \<Rightarrow> world \<Rightarrow> extractionResult \<times> world" where
  "callPDF2JSON decodeURIComponent buffer w =
     (extractTextWithPDF2JSON decodeURIComponent (pdf2json buffer),
      w\<lparr>parserCalls := parserCalls w @ [PDF2JSON]\<rparr>)"

text \<open>\<open>fs.writeFile(cacheFile, JSON.stringify(extractedContent, null, 2))\<close>; \<open>None\<close> when it
  throws.\<close>

definition writeFile :: "bool \<Rightarrow> string \<Rightarrow> extractedContent \<Rightarrow> world \<Rightarrow> world option" where
  "writeFile ok cacheFile content w =
     (if ok then Some (w\<lparr>cacheFiles := (cacheFile, content) # cacheFiles w\<rparr>) else None)"

text \<open>
  \<open>comprehensiveExtractPDF\<close>. The result is the thrown error or the returned record, and
  the world after the call. Destructuring the empty string gives \<open>undefined\<close> for \<open>text\<close>,
  and \<open>fullText.length\<close> then throws a \<open>TypeError\<close>; every error thrown in the body is
  caught and rethrown as the extraction failure.
\<close>

definition comprehensiveExtractPDF ::
  "annotators \<Rightarrow> (string \<Rightarrow> string option) \<Rightarrow> pdfBuffer option \<Rightarrow> bool \<Rightarrow> string \<Rightarrow> string
     \<Rightarrow> world \<Rightarrow> (error + extractedContent) \<times> world" where
  "comprehensiveExtractPDF this decodeURIComponent readFile writeFileOk chapterName now w =
     (case readFile of
        None \<Rightarrow> (Inl (ComprehensiveExtractionFailed ReadFileFailed), w)
      | Some buffer \<Rightarrow>
          (case callPdfReader buffer w of
             (primary, w1) \<Rightarrow>
               (case (if (case resultText primary of None \<Rightarrow> True | Some t \<Rightarrow> t = [] \<or> length t < 100)
                      then callPDF2JSON decodeURIComponent buffer w1
                      else (primary, w1)) of
                  (extractionResult, w2) \<Rightarrow>
                    (case extractionResult of
                       EmptyString \<Rightarrow> (Inl (ComprehensiveExtractionFailed TypeError), w2)
                     | Extraction fullText pageData totalPages \<Rightarrow>
                         (let textChunks = createPageAwareChunks this fullText pageData totalPages
                          in (case createSearchIndex fullText textChunks of
                                Inl e \<Rightarrow> (Inl (ComprehensiveExtractionFailed e), w2)
                              | Inr index \<Rightarrow>
                                  (let extractedContent =
                                         \<lparr>ec_chapterName = chapterName, ec_extractedAt = now,
                                          ec_text = fullText, ec_totalPages = totalPages,
                                          ec_pageData = pageData, ec_textChunks = textChunks,
                                          ec_searchIndex = index\<rparr>
                                   in (case writeFile writeFileOk
                                              (replaceFirst ''.pdf'' ''.json'' chapterName)
                                              extractedContent w2 of
                                         None \<Rightarrow> (Inl (ComprehensiveExtractionFailed WriteFileFailed), w2)
                                       | Some w3 \<Rightarrow> (Inr extractedContent, w3)))))))))"

section \<open>Citations\<close>

text \<open>
  \<open>s.match(r)\<close> for a regular expression without the \<open>g\<close> flag that ends with \<open>$\<close>: the
  groups of the first way, in the order of the backtracking matcher, in which the
  expression matches up to the end of the string; \<open>matchToEnd\<close> for an expression that
  starts with \<open>^\<close>, \<open>searchToEnd\<close> for one that may start anywhere, the leftmost start
  first. \<open>.\<close> matches every code unit below U+0100 but the line terminators.
\<close>

definition matchToEnd :: "regex \<Rightarrow> string \<Rightarrow> string list option" where
  "matchToEnd r s =
     (case filter (\<lambda>(g, rest). rest = []) (ends r s) of
        [] \<Rightarrow> None
      | (g, rest) # _ \<Rightarrow> Some g)"

fun searchToEnd :: "regex \<Rightarrow> string \<Rightarrow> string list option" where
  "searchToEnd r [] = matchToEnd r []"
| "searchToEnd r (c # cs) =
     (case matchToEnd r (c # cs) of
        Some g \<Rightarrow> Some g
      | None \<Rightarrow> searchToEnd r cs)"

definition notLineTerminator :: "char \<Rightarrow> bool" where
  "notLineTerminator c = (c \<noteq> CHR 0x0A \<and> c \<noteq> CHR 0x0D)"

text \<open>
  \<open>/^Chapter\s*(\d+)\.\s*(.+)\.pdf$/i\<close>, \<open>/Ch\d+_Chapter\s*(\d+)\.\s*(.+)\.pdf$/i\<close> and
  \<open>/^Chapter\s*(\d+)\s+(.+)\.pdf$/i\<close>.
\<close>

definition newFormat :: regex where
  "newFormat = seqs [litCI ''Chapter'', Rep isSpace 0, Grp (Rep isDigit 1), lit ''.'', Rep isSpace 0,
     Grp (Rep notLineTerminator 1), litCI ''.pdf'']"

definition oldFormat :: regex where
  "oldFormat = seqs [litCI ''Ch'', Rep isDigit 1, litCI ''_Chapter'', Rep isSpace 0, Grp (Rep isDigit 1),
     lit ''.'', Rep isSpace 0, Grp (Rep notLineTerminator 1), litCI ''.pdf'']"

definition vdiffFormat :: regex where
  "vdiffFormat = seqs [litCI ''Chapter'', Rep isSpace 0, Grp (Rep isDigit 1), Rep isSpace 1,
     Grp (Rep notLineTerminator 1), litCI ''.pdf'']"

text \<open>The template \<open>Chapter ${match[1]}: ${match[2]}\<close>.\<close>

definition numberedTitle :: "string list \<Rightarrow> string" where
  "numberedTitle g = expand [Txt ''Chapter '', Ref 1, Txt '': '', Ref 2] [] g"

text \<open>The two runs of \<open>if (chapterName.includes(...)) return ...\<close>, in the order of the
  source.\<close>

definition anchorsTitles :: "(string \<times> string) list" where
  "anchorsTitles =
     [(''Chapter_8_SRENE'', ''Chapter 8: SRENE Anchors''),
      (''Chapter_9_Belay'', ''Chapter 9: Belay Anchors''),
      (''Chapter 10_Other'', ''Chapter 10: Other Anchors''),
      (''Chapter 2_Passive'', ''Chapter 2: Passive Chocks''),
      (''Chapter 3_Mechanical'', ''Chapter 3: Mechanical Chocks''),
      (''Chapter 4_Fixed'', ''Chapter 4: Fixed Gear''),
      (''Chapter 5_Fall Forces'', ''Chapter 5: Fall Forces and the Jesus Nut''),
      (''Chapter 6_Judging'', ''Chapter 6: Judging the Direction of Pull''),
      (''Chapter 7_Knots'', ''Chapter 7: Knots for Anchoring'')]"

definition vdiffTitles :: "(string \<times> string) list" where
  "vdiffTitles =
     [(''04_Anchors'', ''Chapter 4: Anchors''),
      (''05_Descending'', ''Chapter 5: Descending''),
      (''01_Introduction'', ''Chapter 1: Introduction''),
      (''02_Belaying'', ''Chapter 2: Belaying''),
      (''03_Leading'', ''Chapter 3: Leading''),
      (''06_Multi-Pitch'', ''Chapter 6: Multi-Pitch''),
      (''07_Technique'', ''Chapter 7: Technique''),
      (''08_Knots'', ''Chapter 8: Knots'')]"

definition titleIncluded :: "(string \<times> string) list \<Rightarrow> string \<Rightarrow> string option" where
  "titleIncluded titles chapterName =
     map_option snd (find (\<lambda>(part, title). includes' chapterName part) titles)"

definition getChapterTitle :: "string \<Rightarrow> string" where
  "getChapterTitle chapterName =
     (case matchToEnd newFormat chapterName of
        Some newMatch \<Rightarrow> numberedTitle newMatch
      | None \<Rightarrow>
     (case searchToEnd oldFormat chapterName of
        Some oldMatch \<Rightarrow> numberedTitle oldMatch
      | None \<Rightarrow>
     (case titleIncluded anchorsTitles chapterName of
        Some title \<Rightarrow> title
      | None \<Rightarrow>
     (case matchToEnd vdiffFormat chapterName of
        Some vdiffMatch \<Rightarrow> numberedTitle vdiffMatch
      | None \<Rightarrow>
     (case titleIncluded vdiffTitles chapterName of
        Some title \<Rightarrow> title
      | None \<Rightarrow> replaceFirst ''.json'' [] (replaceFirst ''.pdf'' [] chapterName))))))"

text \<open>
  \<open>getBookMetadata\<close>: \<open>bookMetadata[bookName] || { ... }\<close>. The lookup yields the own
  entry for the three known books, the inherited value for a name that the object
  literal inherits, and \<open>undefined\<close>, so the default, for every other name. The inherited
  value is truthy and is returned as it is: a function (for \<open>__proto__\<close>, the prototype
  object) without \<open>authors\<close>, \<open>title\<close>, \<open>edition\<close>, \<open>publisher\<close> or \<open>year\<close>. It is modelled
  by \<open>None\<close>.
\<close>

record bookMetadata =
  bm_title :: string
  bm_authors :: "string list"
  bm_edition :: string
  bm_publisher :: string
  bm_year :: string

definition knownBooks :: "(string \<times> bookMetadata) list" where
  "knownBooks =
     [(''Climbing Anchors'',
       \<lparr>bm_title = ''Climbing Anchors'', bm_authors = [''John Long'', ''Bob Gaines''],
        bm_edition = ''2nd Edition'', bm_publisher = ''Falcon Guides'', bm_year = ''2013''\<rparr>),
      (''Mountaineering - The Freedom of the Hills'',
       \<lparr>bm_title = ''Mountaineering: The Freedom of the Hills'', bm_authors = [''The Mountaineers''],
        bm_edition = ''9th Edition'', bm_publisher = ''The Mountaineers Books'', bm_year = ''2017''\<rparr>),
      (''VDiff - Sports Basics'',
       \<lparr>bm_title = ''Sport Climbing Basics'', bm_authors = [''VDiff Climbing''],
        bm_edition = ''1st Edition'', bm_publisher = ''VDiff'', bm_year = ''2020''\<rparr>)]"

definition getBookMetadata :: "string \<Rightarrow> bookMetadata option" where
  "getBookMetadata bookName =
     (case map_of knownBooks bookName of
        Some own \<Rightarrow> Some own
      | None \<Rightarrow>
          (if bookName \<in> set objectPrototypeKeys then None
           else Some \<lparr>bm_title = replaceAll (Cls (\<lambda>c. c = CHR ''_'')) (expand [Txt '' '']) bookName,
                      bm_authors = [''Unknown''], bm_edition = ''Unknown'', bm_publisher = ''Unknown'',
                      bm_year = ''Unknown''\<rparr>))"

text \<open>
  \<open>formatCitation(bookName, chapterName, sectionHeading)\<close>. With the inherited value for
  the metadata, \<open>metadata.authors\<close> is \<open>undefined\<close> and \<open>metadata.authors.join\<close> throws a
  \<open>TypeError\<close>. A section heading that is \<open>null\<close>, \<open>undefined\<close> or the empty string is
  left out.
\<close>

definition formatCitation :: "string \<Rightarrow> string \<Rightarrow> string option \<Rightarrow> cause + string" where
  "formatCitation bookName chapterName sectionHeading' =
     (case getBookMetadata bookName of
        None \<Rightarrow> Inl TypeError
      | Some metadata \<Rightarrow>
          (let chapterTitle = getChapterTitle chapterName;
               citation = joinWith '', '' (bm_authors metadata) @ ''. '' @ [CHR 0x22] @ chapterTitle @ ''.''
                 @ [CHR 0x22] @ '' In '' @ bm_title metadata @ '', '' @ bm_edition metadata;
               citation1 = (case sectionHeading' of
                              None \<Rightarrow> citation
                            | Some heading \<Rightarrow>
                                (if heading = [] then citation
                                 else citation @ '', '' @ heading @ '' section''))
           in Inr (citation1 @ ''. '' @ bm_publisher metadata @ '', '' @ bm_year metadata @ ''.'')))"

text \<open>
  \<open>formatInlineCitation(bookName, chapterName)\<close>. \<open>metadata.authors[0].split(' ').pop()\<close>
  throws a \<open>TypeError\<close> with the inherited value for the metadata, and would with an
  empty author list. The chapter topic is the second piece of a title that contains a
  colon, trimmed.
\<close>

definition formatInlineCitation :: "string \<Rightarrow> string \<Rightarrow> cause + string" where
  "formatInlineCitation bookName chapterName =
     (case getBookMetadata bookName of
        None \<Rightarrow> Inl TypeError
      | Some metadata \<Rightarrow>
          (case bm_authors metadata of
             [] \<Rightarrow> Inl TypeError
           | first # others \<Rightarrow>
               (let author = last (splitOn CHR '' '' first);
                    chapterTitle = getChapterTitle chapterName;
                    chapterTopic = (case splitOn CHR '':'' chapterTitle of
                                      before # after # pieces \<Rightarrow> trim after
                                    | _ \<Rightarrow> chapterTitle)
                in Inr (''('' @ author @ (if others \<noteq> [] then '' et al.'' else [])
                        @ '', '' @ bm_year metadata @ '', '' @ [CHR 0x22] @ chapterTopic @ [CHR 0x22]
                        @ '')''))))"

text \<open>A loop whose body may throw: the first error, or the values in order.\<close>

fun collect :: "('e + 'a) list \<Rightarrow> 'e + 'a list" where
  "collect [] = Inr []"
| "collect (x # xs) =
     (case x of
        Inl e \<Rightarrow> Inl e
      | Inr v \<Rightarrow> (case collect xs of Inl e \<Rightarrow> Inl e | Inr vs \<Rightarrow> Inr (v # vs)))"

section \<open>Query engine\<close>

text \<open>
  \<open>(s.match(new RegExp(word, 'g')) || []).length\<close>: the matches of a global regular
  expression, found left to right without overlap. The query words consist of word
  characters only (they come out of \<open>tokenize\<close>), so the expression is the literal word.
\<close>

function matchAll :: "regex \<Rightarrow> string \<Rightarrow> string list" where
  "matchAll r s =
     (case ends r s of
        [] \<Rightarrow> (case s of [] \<Rightarrow> [] | c # cs \<Rightarrow> matchAll r cs)
      | (g, rest) # _ \<Rightarrow>
          (if length rest < length s
           then take (length s - length rest) s # matchAll r rest
           else [] # (case s of [] \<Rightarrow> [] | c # cs \<Rightarrow> matchAll r cs)))"
  by pat_completeness auto
termination
  by (relation "measure (\<lambda>(r, s). length s)") auto

declare matchAll.simps [simp del]

definition regexCount :: "string \<Rightarrow> string \<Rightarrow> nat" where
  "regexCount s word = length (matchAll (lit word) s)"

text \<open>The sidecar metadata of a chapter; a field is \<open>None\<close> when it is missing or falsy.\<close>

record metadata =
  md_keywords :: "string list option"
  md_title :: "string option"
  md_description :: "string option"

text \<open>
  The relevance score from the metadata: 50 for each keyword and query word where one
  contains the other, 30 for each query word in the title, 20 for each in the
  description. Without a metadata file the score is 0.
\<close>

definition countWhere :: "('a \<Rightarrow> bool) \<Rightarrow> 'a list \<Rightarrow> int" where
  "countWhere P xs = int (length (filter P xs))"

definition metadataScoreOf :: "string list \<Rightarrow> metadata option \<Rightarrow> int" where
  "metadataScoreOf queryWords md =
     (case md of
        None \<Rightarrow> 0
      | Some m \<Rightarrow>
          (case md_keywords m of
             None \<Rightarrow> 0
           | Some keywords \<Rightarrow>
               50 * sum_list (map (\<lambda>keyword.
                      countWhere (\<lambda>queryWord. includes' (toLowerCase keyword) queryWord
                                     \<or> includes' queryWord (toLowerCase keyword)) queryWords) keywords))
          + (case md_title m of
               None \<Rightarrow> 0
             | Some title \<Rightarrow> 30 * countWhere (\<lambda>queryWord. includes' (toLowerCase title) queryWord) queryWords)
          + (case md_description m of
               None \<Rightarrow> 0
             | Some description \<Rightarrow>
                 20 * countWhere (\<lambda>queryWord. includes' (toLowerCase description) queryWord) queryWords))"

text \<open>The filter that selects the chunks matching the query (or topic) words.\<close>

definition chunkMatches :: "string list \<Rightarrow> chunk \<Rightarrow> bool" where
  "chunkMatches queryWords chunk =
     ((\<exists>word \<in> set queryWords. includes' (toLowerCase (text' chunk)) word)
      \<or> (\<exists>topic \<in> set (topics chunk). toLowerCase topic \<in> set queryWords))"

text \<open>
  The score of a matching chunk: the metadata score, plus 10 for every match of every
  query word in the lower-cased text, plus 20 for every topic that is a query word.
\<close>

definition chunkScore :: "int \<Rightarrow> string list \<Rightarrow> chunk \<Rightarrow> int" where
  "chunkScore metadataScore queryWords chunk =
     foldl (\<lambda>score topic. if toLowerCase topic \<in> set queryWords then score + 20 else score)
       (foldl (\<lambda>score word. score + int (regexCount (toLowerCase (text' chunk)) word) * 10)
          metadataScore queryWords)
       (topics chunk)"

text \<open>
  A scored match is a chunk with its score, or the placeholder made for a chapter that
  matches by its metadata only.
\<close>

datatype scoredMatch =
    ChunkMatch chunk int
  | Placeholder string int "string list" string

fun scoreOf :: "scoredMatch \<Rightarrow> int" where
  "scoreOf (ChunkMatch chunk score) = score"
| "scoreOf (Placeholder t score ts heading) = score"

fun matchText :: "scoredMatch \<Rightarrow> string" where
  "matchText (ChunkMatch chunk score) = text' chunk"
| "matchText (Placeholder t score ts heading) = t"

text \<open>\<open>xs.sort((a, b) => key(b) - key(a))\<close>: a stable sort, descending by the key.\<close>

definition sortDescending :: "('a \<Rightarrow> int) \<Rightarrow> 'a list \<Rightarrow> 'a list" where
  "sortDescending key xs = sort_key (\<lambda>x. - key x) xs"

text \<open>\<open>xs.slice(0, n)\<close> for an integer \<open>n\<close>: a negative \<open>n\<close> counts from the end.\<close>

definition slice0 :: "'a list \<Rightarrow> int \<Rightarrow> 'a list" where
  "slice0 xs n = (if n < 0 then take (nat (int (length xs) + n)) xs else take (nat n) xs)"

definition scoredMatches :: "string list \<Rightarrow> int \<Rightarrow> metadata option \<Rightarrow> chunk list \<Rightarrow> scoredMatch list" where
  "scoredMatches queryWords metadataScore md chunks =
     (let sorted = sortDescending scoreOf
            (map (\<lambda>chunk. ChunkMatch chunk (chunkScore metadataScore queryWords chunk))
               (filter (chunkMatches queryWords) chunks))
      in if sorted = [] \<and> metadataScore \<ge> 50
         then [Placeholder
                 (''Chapter highly relevant based on keywords: '' @
                    (case Option.bind md md_keywords of
                       None \<Rightarrow> ''N/A''
                     | Some ks \<Rightarrow> if joinWith '', '' ks = [] then ''N/A'' else joinWith '', '' ks))
                 metadataScore
                 (case Option.bind md md_keywords of None \<Rightarrow> [] | Some ks \<Rightarrow> ks)
                 (case Option.bind md md_title of None \<Rightarrow> ''Chapter Content'' | Some t \<Rightarrow> t)]
         else sorted)"

text \<open>An entry of \<open>results\<close>; its fields are those of the source, prefixed with \<open>r_\<close>.\<close>

record chapterResult =
  r_book :: string
  r_chapter :: string
  r_chapterTitle :: string
  r_metadataScore :: int
  r_metadata :: "metadata option"
  r_matches :: "scoredMatch list"

text \<open>
  The file system as the search reads it: the entries of the books directory (\<open>None\<close>
  when it cannot be read), for each entry the outcome of \<open>fs.stat\<close> (whether it is a
  directory) and of \<open>fs.readdir\<close> (its files), each \<open>None\<close> when the call throws, the
  parsed metadata file of a path (\<open>None\<close> when reading or parsing it throws) and the
  parsed cache file of a name (\<open>None\<close> when \<open>getCachedContent\<close> returns \<open>null\<close>).
\<close>

record fileSystem =
  bookDirs :: "string list option"
  isDirectory :: "string \<Rightarrow> bool option"
  readdir :: "string \<Rightarrow> string list option"
  readMetadata :: "string \<Rightarrow> string \<Rightarrow> metadata option"
  readCache :: "string \<Rightarrow> extractedContent option"

definition getCachedContent :: "fileSystem \<Rightarrow> string \<Rightarrow> extractedContent option" where
  "getCachedContent fs chapterName = readCache fs (replaceFirst ''.pdf'' ''.json'' chapterName)"

text \<open>The chapters of one book with their metadata scores, most relevant first; only
  the chapters with a metadata match are searched when there is one.\<close>

definition chaptersToSearch ::
  "fileSystem \<Rightarrow> string list \<Rightarrow> string \<Rightarrow> string list \<Rightarrow> (string \<times> int \<times> metadata option) list" where
  "chaptersToSearch fs queryWords bookDir files =
     (let pdfFiles = filter (\<lambda>file. endsWith (toLowerCase file) ''.pdf'') files;
          chaptersWithRelevance =
            sortDescending (\<lambda>(file, score, md). score)
              (map (\<lambda>file. (let md = readMetadata fs bookDir (replaceFirst ''.pdf'' ''.json'' file)
                              in (file, metadataScoreOf queryWords md, md))) pdfFiles)
      in if (\<exists>c \<in> set chaptersWithRelevance. fst (snd c) > 0)
         then filter (\<lambda>c. fst (snd c) > 0) chaptersWithRelevance
         else chaptersWithRelevance)"

text \<open>The result pushed for one chapter, if any.\<close>

definition chapterResultOf ::
  "fileSystem \<Rightarrow> string list \<Rightarrow> string \<Rightarrow> string \<times> int \<times> metadata option \<Rightarrow> chapterResult option" where
  "chapterResultOf fs queryWords bookDir c =
     (case c of (file, score, md) \<Rightarrow>
        (case getCachedContent fs file of
           None \<Rightarrow> None
         | Some cached \<Rightarrow>
             (if filter (chunkMatches queryWords) (ec_textChunks cached) \<noteq> [] \<or> score > 0
              then (let ms = scoredMatches queryWords score md (ec_textChunks cached)
                    in if ms \<noteq> []
                       then Some \<lparr>r_book = bookDir, r_chapter = file,
                               r_chapterTitle = (if ec_chapterName cached = [] then file
                                                 else ec_chapterName cached),
                               r_metadataScore = score, r_metadata = md, r_matches = slice0 ms 2\<rparr>
                       else None)
              else None)))"

definition maxScore :: "chapterResult \<Rightarrow> int" where
  "maxScore r = Max (set (map scoreOf (r_matches r)))"

text \<open>The body of the loop over the entries of the books directory: the results pushed
  for one entry, \<open>None\<close> when \<open>fs.stat\<close> or \<open>fs.readdir\<close> throws.\<close>

definition bookResults :: "fileSystem \<Rightarrow> string list \<Rightarrow> string \<Rightarrow> chapterResult list option" where
  "bookResults fs queryWords bookDir =
     (case isDirectory fs bookDir of
        None \<Rightarrow> None
      | Some directory \<Rightarrow>
          (if \<not> directory then Some []
           else (case readdir fs bookDir of
                   None \<Rightarrow> None
                 | Some files \<Rightarrow>
                     Some (List.map_filter (chapterResultOf fs queryWords bookDir)
                             (chaptersToSearch fs queryWords bookDir files)))))"

text \<open>The loop, with the first throw ending it.\<close>

fun allResults :: "fileSystem \<Rightarrow> string list \<Rightarrow> string list \<Rightarrow> chapterResult list option" where
  "allResults fs queryWords [] = Some []"
| "allResults fs queryWords (bookDir # dirs) =
     (case bookResults fs queryWords bookDir of
        None \<Rightarrow> None
      | Some pushed \<Rightarrow> map_option (\<lambda>more. pushed @ more) (allResults fs queryWords dirs))"

definition searchResults :: "fileSystem \<Rightarrow> string list \<Rightarrow> string list \<Rightarrow> chapterResult list option" where
  "searchResults fs queryWords dirs = map_option (sortDescending maxScore) (allResults fs queryWords dirs)"

text \<open>
  \<open>getContextSnippet(text, queryWords, contextLength)\<close>. \<open>bestMatch\<close> starts as
  \<open>{ index: 0, word: '' }\<close>. \<open>contextLength / 2\<close> need not be an integer, so \<open>start\<close> and
  \<open>end\<close> are kept doubled; \<open>substring\<close> truncates its arguments.
\<close>

definition bestMatchStep :: "string \<Rightarrow> nat \<times> string \<Rightarrow> string \<Rightarrow> nat \<times> string" where
  "bestMatchStep t bestMatch word =
     (case indexOf (toLowerCase t) word of
        None \<Rightarrow> bestMatch
      | Some index \<Rightarrow> (if fst bestMatch = 0 \<or> index < fst bestMatch then (index, word) else bestMatch))"

definition getContextSnippet :: "string \<Rightarrow> string list \<Rightarrow> nat \<Rightarrow> string" where
  "getContextSnippet t queryWords contextLength =
     (let bestMatch = foldl (bestMatchStep t) (0, []) queryWords
      in if fst bestMatch = 0
         then substring t 0 contextLength @ (if length t > contextLength then ''...'' else [])
         else (let start2 = 2 * fst bestMatch - contextLength;
                   end2 = min (2 * length t) (2 * fst bestMatch + contextLength)
               in (if start2 > 0 then ''...'' else []) @ substring t (start2 div 2) (end2 div 2)
                  @ (if end2 < 2 * length t then ''...'' else [])))"

text \<open>
  What the response text shows of one of \<open>results.slice(0, maxResults)\<close>: the result, its
  two citations, and for each match the quoted context snippet. \<open>result.matches[0]\<close> of a
  result without matches is \<open>undefined\<close>, whose \<open>sectionHeading\<close> throws. The inline
  citation is computed again, with the same arguments, for every match and for every
  page reference shown.
\<close>

record renderedResult =
  rr_result :: chapterResult
  rr_fullCitation :: string
  rr_inlineCitation :: string
  rr_evidence :: "(scoredMatch \<times> string) list"

fun sectionHeadingOf :: "scoredMatch \<Rightarrow> string option" where
  "sectionHeadingOf (ChunkMatch c score) = sectionHeading c"
| "sectionHeadingOf (Placeholder t score ts heading) = Some heading"

definition renderResult :: "string list \<Rightarrow> chapterResult \<Rightarrow> cause + renderedResult" where
  "renderResult queryWords result =
     (case r_matches result of
        [] \<Rightarrow> Inl TypeError
      | first # others \<Rightarrow>
          (case formatCitation (r_book result) (r_chapter result) (sectionHeadingOf first) of
             Inl e \<Rightarrow> Inl e
           | Inr fullCitation \<Rightarrow>
               (case formatInlineCitation (r_book result) (r_chapter result) of
                  Inl e \<Rightarrow> Inl e
                | Inr inlineCitation \<Rightarrow>
                    Inr \<lparr>rr_result = result, rr_fullCitation = fullCitation,
                         rr_inlineCitation = inlineCitation,
                         rr_evidence = map (\<lambda>m. (m, getContextSnippet (matchText m) queryWords CONTEXT_WINDOW))
                                         (r_matches result)\<rparr>)))"

text \<open>
  \<open>searchContent(query, maxResults)\<close>. The response is the error result (whatever is
  thrown in the body is caught), the message that nothing was found, or the text that
  reports the number of chapters found and then renders \<open>results.slice(0, maxResults)\<close>;
  the model returns that number and what is rendered.
\<close>

datatype searchResponse =
    SearchError
  | NoContentFound
  | Rendered nat "renderedResult list"

definition searchContent :: "fileSystem \<Rightarrow> string \<Rightarrow> int \<Rightarrow> searchResponse" where
  "searchContent fs query maxResults =
     (let queryWords = tokenize query
      in (case bookDirs fs of
            None \<Rightarrow> SearchError
          | Some dirs \<Rightarrow>
              (case searchResults fs queryWords dirs of
                 None \<Rightarrow> SearchError
               | Some results \<Rightarrow>
                   (if results = [] then NoContentFound
                    else (case collect (map (renderResult queryWords) (slice0 results maxResults)) of
                            Inl e \<Rightarrow> SearchError
                          | Inr rendered \<Rightarrow> Rendered (length results) rendered)))))"

text \<open>
  \<open>getChapterSection\<close>. \<open>contextSizes[contextLevel] || 2\<close> is the own property for the
  three levels, the inherited value for an inherited name, and 2 otherwise;
  \<open>slice(0, maxChunks)\<close> converts an inherited value to \<open>NaN\<close> and takes no element.
\<close>

datatype maxChunks = Count nat | InheritedValue

definition contextSizes :: "(string \<times> nat) list" where
  "contextSizes = [(''brief'', 1), (''detailed'', 2), (''comprehensive'', 3)]"

definition maxChunksOf :: "string \<Rightarrow> maxChunks" where
  "maxChunksOf contextLevel =
     (case map_of contextSizes contextLevel of
        Some n \<Rightarrow> Count n
      | None \<Rightarrow> (if contextLevel \<in> set objectPrototypeKeys then InheritedValue else Count 2))"

fun sliceTo :: "'a list \<Rightarrow> maxChunks \<Rightarrow> 'a list" where
  "sliceTo xs (Count n) = take n xs"
| "sliceTo xs InheritedValue = []"

definition relevantChunks :: "string \<Rightarrow> chunk list \<Rightarrow> chunk list" where
  "relevantChunks sectionTopic chunks = filter (chunkMatches (tokenize sectionTopic)) chunks"

text \<open>What the response text shows of one of \<open>relevantChunks.slice(0, maxChunks)\<close>: the
  chunk (its heading, topics, text and page references) and its two citations.\<close>

record evidence =
  ev_chunk :: chunk
  ev_inlineCitation :: string
  ev_fullCitation :: string

definition renderChunk :: "string \<Rightarrow> string \<Rightarrow> chunk \<Rightarrow> cause + evidence" where
  "renderChunk bookName chapterName c =
     (case formatInlineCitation bookName chapterName of
        Inl e \<Rightarrow> Inl e
      | Inr inlineCitation \<Rightarrow>
          (case formatCitation bookName chapterName (sectionHeading c) of
             Inl e \<Rightarrow> Inl e
           | Inr fullChunkCitation \<Rightarrow>
               Inr \<lparr>ev_chunk = c, ev_inlineCitation = inlineCitation,
                    ev_fullCitation = fullChunkCitation\<rparr>))"

text \<open>
  The response is one of the two messages, the error result (whatever is thrown in the
  body is caught), or the text with the citation of the section and the rendered
  chunks.
\<close>

datatype sectionResponse =
    NotExtracted
  | NoSectionContent
  | SectionError
  | Section string "evidence list"

definition getChapterSection :: "fileSystem \<Rightarrow> string \<Rightarrow> string \<Rightarrow> string \<Rightarrow> string \<Rightarrow> sectionResponse" where
  "getChapterSection fs bookName chapterName sectionTopic contextLevel =
     (case getCachedContent fs chapterName of
        None \<Rightarrow> NotExtracted
      | Some cached \<Rightarrow>
          (let relevant = relevantChunks sectionTopic (ec_textChunks cached)
           in if relevant = [] then NoSectionContent
              else (let maxChunks = maxChunksOf contextLevel
                    in (case formatCitation bookName chapterName (Some sectionTopic) of
                          Inl e \<Rightarrow> SectionError
                        | Inr fullCitation \<Rightarrow>
                            (case collect (map (renderChunk bookName chapterName)
                                             (sliceTo relevant maxChunks)) of
                               Inl e \<Rightarrow> SectionError
                             | Inr rendered \<Rightarrow> Section fullCitation rendered)))))"

text \<open>The chunks a response shows.\<close>

fun shownChunks :: "sectionResponse \<Rightarrow> chunk list option" where
  "shownChunks (Section fullCitation rendered) = Some (map ev_chunk rendered)"
| "shownChunks response = None"

section \<open>Predicates used in the properties\<close>

text \<open>A string has no leading (trailing) whitespace: it is empty or its first (last)
  code unit is not matched by \<open>\s\<close>.\<close>

definition noLeadingSpace :: "string \<Rightarrow> bool" where
  "noLeadingSpace s = (case s of [] \<Rightarrow> True | c # _ \<Rightarrow> \<not> isSpace c)"

definition noTrailingSpace :: "string \<Rightarrow> bool" where
  "noTrailingSpace s = noLeadingSpace (rev s)"

definition cleanWord :: "string \<Rightarrow> bool" where
  "cleanWord w = (w \<noteq> [] \<and> noLeadingSpace w \<and> noTrailingSpace w)"


text \<open>A string without two adjacent whitespace code units.\<close>

definition adjFree :: "string \<Rightarrow> bool" where
  "adjFree t = (\<not> (\<exists>a c d b. t = a @ c # d # b \<and> isSpace c \<and> isSpace d))"

text \<open>
  The page numbers that \<open>createCharToPageMap\<close> assigns to the character positions
  \<open>0, 1, ...\<close> when the text is long enough: each page, in ascending order, as many times
  as its text is long, plus one. \<open>tabulate L W\<close> is the map with the first \<open>L\<close> of them.
\<close>

definition pageWalk :: "pageData \<Rightarrow> nat list" where
  "pageWalk pd = concat (map (\<lambda>k. replicate (length (pageTextOf pd k) + 1) k) (sortedPages pd))"

definition tabulate :: "nat \<Rightarrow> nat list \<Rightarrow> (nat \<rightharpoonup> nat)" where
  "tabulate L W = (\<lambda>pos. if pos < min L (length W) then Some (W ! pos) else None)"

text \<open>A list in descending order of a key.\<close>

definition descending :: "('a \<Rightarrow> int) \<Rightarrow> 'a list \<Rightarrow> bool" where
  "descending key xs = sorted_wrt (\<lambda>a b. key a \<ge> key b) xs"

section \<open>Example data\<close>

text \<open>A PdfReader run whose pages are numbered 2 and 3.\<close>

definition exampleRun :: "readerItem list \<times> readerEnd" where
  "exampleRun =
     ([ReaderItem (Some 2) None, ReaderItem None (Some ''hello''),
       ReaderItem (Some 3) None, ReaderItem None (Some ''world'')], EndOfDocument)"

text \<open>A PdfReader run with one page of 100 characters.\<close>

definition longRun :: "readerItem list \<times> readerEnd" where
  "longRun = ([ReaderItem (Some 1) None, ReaderItem None (Some (replicate 100 CHR ''a''))], EndOfDocument)"

text \<open>What PDF2JSON reports on a document of two pages.\<close>

definition examplePages :: "pdfPage list" where
  "examplePages = [Some [Some [Some ''belay'', Some ''device'']], Some [None, Some [Some ''anchor'']]]"

text \<open>A text that starts with one query word and has another one a little later.\<close>

definition snippetText :: string where
  "snippetText = ''rope and anchor '' @ replicate 300 CHR ''x''"

text \<open>Chunks and cached records for concrete searches.\<close>

definition mkChunk :: "nat \<Rightarrow> string \<Rightarrow> string list \<Rightarrow> chunk" where
  "mkChunk i t ts = \<lparr>id' = i, text' = t, startChar = 0, endChar = length t, startPage = 1,
     endPage = Some 1, pageReferences = [], sectionHeading = None, topics = ts\<rparr>"

definition mkContent :: "string \<Rightarrow> chunk list \<Rightarrow> extractedContent" where
  "mkContent name chunks = \<lparr>ec_chapterName = name, ec_extractedAt = ''2024'', ec_text = concat (map text' chunks),
     ec_totalPages = Some 1, ec_pageData = [], ec_textChunks = chunks, ec_searchIndex = []\<rparr>"

text \<open>A cached chapter with five chunks, four of them about anchors.\<close>

definition sectionChunks :: "chunk list" where
  "sectionChunks =
     [mkChunk 0 ''an anchor'' [], mkChunk 1 ''anchor anchor anchor'' [''anchor''],
      mkChunk 2 ''knots only'' [], mkChunk 3 ''two anchor anchor'' [], mkChunk 4 ''Anchor again'' []]"

definition sectionFs :: fileSystem where
  "sectionFs = \<lparr>bookDirs = Some [''Book''], isDirectory = (\<lambda>d. Some True),
     readdir = (\<lambda>d. Some [''anchors.pdf'']),
     readMetadata = (\<lambda>b f. None),
     readCache = (\<lambda>f. if f = ''anchors.json'' then Some (mkContent ''anchors.pdf'' sectionChunks)
                     else None)\<rparr>"







text \<open>The records cached for a document on which PdfReader reports \<open>longRun\<close>, and for one
  on which it reports a shorter text and PDF2JSON reports \<open>examplePages\<close>.\<close>

definition longContent :: extractedContent where
  "longContent = \<lparr>ec_chapterName = ''ch1.pdf'', ec_extractedAt = ''2024'',
     ec_text = replicate 100 CHR ''a'', ec_totalPages = Some 1,
     ec_pageData = [(1, replicate 100 CHR ''a'' @ '' '')],
     ec_textChunks = [\<lparr>id' = 0, text' = replicate 100 CHR ''a'', startChar = 0, endChar = 100,
        startPage = 1, endPage = Some 1, pageReferences = [], sectionHeading = None, topics = []\<rparr>],
     ec_searchIndex = [(replicate 100 CHR ''a'', [0])]\<rparr>"

definition pagesContent :: extractedContent where
  "pagesContent = \<lparr>ec_chapterName = ''ch1.pdf'', ec_extractedAt = ''2024'',
     ec_text = ''belaydeviceanchor'', ec_totalPages = Some 2,
     ec_pageData = [(2, ''anchor''), (1, ''belay device'')],
     ec_textChunks = [\<lparr>id' = 0, text' = ''belaydeviceanchor'', startChar = 0, endChar = 17,
        startPage = 1, endPage = Some 2, pageReferences = [], sectionHeading = None, topics = []\<rparr>],
     ec_searchIndex = [(''belaydeviceanchor'', [0])]\<rparr>"

chapter \<open>Properties\<close>

section \<open>Chunk coverage\<close>

lemma substring_piece: "drop i (take (i + n) t) @ drop (i + n) t = drop i t"
proof -
  have "drop i t = drop i (take (i + n) t @ drop (i + n) t)" by simp
  also have "\<dots> = drop i (take (i + n) t) @ drop (i - length (take (i + n) t)) (drop (i + n) t)"
    by (rule drop_append)
  also have "i - length (take (i + n) t) = 0" if "i \<le> length t" using that by simp
  finally show ?thesis
    by (cases "i \<le> length t") auto
qed

lemma chunkLoop_decomp:
  "\<exists>new. chunkLoop this t m tp i acc = acc @ new
     \<and> (i < length t \<longrightarrow> i # map endChar new = map startChar new @ [length t])
     \<and> (\<not> i < length t \<longrightarrow> new = [])
     \<and> map text' new = map (\<lambda>c. substring t (startChar c) (endChar c)) new
     \<and> concat (map text' new) = drop i t
     \<and> map id' new = [length acc..<length acc + length new]
     \<and> (\<forall>c \<in> set new. startChar c < endChar c)"
proof (induction this t m tp i acc rule: chunkLoop.induct)
  case (1 this t m tp i acc)
  show ?case
  proof (cases "i < length t")
    case False
    then show ?thesis by simp
  next
    case True
    define c where "c = \<lparr>id' = length acc, text' = substring t i (i + CHUNK_SIZE), startChar = i,
        endChar = min (i + CHUNK_SIZE) (length t), startPage = orOne (m i),
        endPage = orElse (m (min (i + CHUNK_SIZE) (length t) - 1)) tp,
        pageReferences = extractPageReferences this (substring t i (i + CHUNK_SIZE)) (orOne (m i))
           (orElse (m (min (i + CHUNK_SIZE) (length t) - 1)) tp),
        sectionHeading = detectSectionHeading this (substring t i (i + CHUNK_SIZE)),
        topics = extractTopics this (substring t i (i + CHUNK_SIZE))\<rparr>"
    have step: "chunkLoop this t m tp i acc = chunkLoop this t m tp (i + CHUNK_SIZE) (acc @ [c])"
      using True by (subst chunkLoop.simps) (simp add: Let_def c_def)
    from "1.IH"[OF True refl refl refl refl refl refl, folded c_def]
    obtain new where new:
      "chunkLoop this t m tp (i + CHUNK_SIZE) (acc @ [c]) = (acc @ [c]) @ new"
      "i + CHUNK_SIZE < length t \<longrightarrow> (i + CHUNK_SIZE) # map endChar new = map startChar new @ [length t]"
      "\<not> i + CHUNK_SIZE < length t \<longrightarrow> new = []"
      "map text' new = map (\<lambda>c. substring t (startChar c) (endChar c)) new"
      "concat (map text' new) = drop (i + CHUNK_SIZE) t"
      "map id' new = [length (acc @ [c])..<length (acc @ [c]) + length new]"
      "\<forall>c \<in> set new. startChar c < endChar c"
      by blast
    have ctext: "text' c = substring t (startChar c) (endChar c)"
      by (simp add: c_def substring_def min_def max_def)
    have "chunkLoop this t m tp i acc = acc @ (c # new)"
      using step new(1) by simp
    moreover have "i # map endChar (c # new) = map startChar (c # new) @ [length t]"
      using new(2,3) True by (cases "i + CHUNK_SIZE < length t") (auto simp: c_def)
    moreover have "map text' (c # new) = map (\<lambda>c. substring t (startChar c) (endChar c)) (c # new)"
      using new(4) ctext by simp
    moreover have "concat (map text' (c # new)) = drop i t"
      using new(5) by (simp add: c_def substring_def substring_piece)
    moreover have "map id' (c # new) = [length acc..<length acc + length (c # new)]"
    proof -
      have "[length acc..<length acc + Suc (length new)] = length acc # [Suc (length acc)..<Suc (length acc) + length new]"
      proof -
        have "[length acc..<length acc + Suc (length new)] = length acc # [Suc (length acc)..<length acc + Suc (length new)]"
          by (rule upt_conv_Cons) simp
        then show ?thesis by (simp only: add_Suc add_Suc_right)
      qed
      moreover have "id' c = length acc" by (simp add: c_def)
      ultimately show ?thesis using new(6) by (simp del: upt_Suc)
    qed
    moreover have "\<forall>c \<in> set (c # new). startChar c < endChar c"
      using new(7) True by (simp add: c_def CHUNK_SIZE_def)
    ultimately show ?thesis using True by blast
  qed
qed

lemma createPageAwareChunks_lists:
  "(let cs = createPageAwareChunks this fullText pageData totalPages in
      (fullText \<noteq> [] \<longrightarrow> 0 # map endChar cs = map startChar cs @ [length fullText])
    \<and> (fullText = [] \<longrightarrow> cs = [])
    \<and> map text' cs = map (\<lambda>c. substring fullText (startChar c) (endChar c)) cs
    \<and> concat (map text' cs) = fullText
    \<and> map id' cs = [0..<length cs]
    \<and> (\<forall>c \<in> set cs. startChar c < endChar c))"
  using chunkLoop_decomp[of this fullText "createCharToPageMap fullText pageData" totalPages 0 "[]"]
  unfolding createPageAwareChunks_def Let_def by auto

text \<open>
  C1. For every full text of length \<open>L\<close> (and every page map, page count and annotators)
  the chunks of \<open>createPageAwareChunks\<close>, with the chunk size 150000, partition \<open>[0, L)\<close>:
  a non-empty text gives a non-empty sequence whose first chunk starts at character 0 and
  whose last chunk ends at \<open>L\<close>; each chunk's \<open>endChar\<close> is the next chunk's
  \<open>startChar\<close>; each chunk is non-empty and its text is the substring of the full text
  from its \<open>startChar\<close> to its \<open>endChar\<close>; the ids are the positions \<open>0, 1, ...\<close>;
  the chunk texts concatenated in id order are the full text; and the empty text gives no
  chunk.
\<close>

theorem createPageAwareChunks_partition:
  "(let cs = createPageAwareChunks this fullText pageData totalPages; L = length fullText in
      (fullText \<noteq> [] \<longrightarrow> cs \<noteq> [] \<and> startChar (cs ! 0) = 0 \<and> endChar (last cs) = L)
    \<and> (\<forall>k. Suc k < length cs \<longrightarrow> endChar (cs ! k) = startChar (cs ! Suc k))
    \<and> (\<forall>c \<in> set cs. startChar c < endChar c \<and> text' c = substring fullText (startChar c) (endChar c))
    \<and> (\<forall>k < length cs. id' (cs ! k) = k)
    \<and> concat (map text' cs) = fullText
    \<and> (fullText = [] \<longrightarrow> cs = []))"
proof -
  define cs where "cs = createPageAwareChunks this fullText pageData totalPages"
  note lists = createPageAwareChunks_lists[of this fullText pageData totalPages, unfolded Let_def, folded cs_def]
  have bounds: "fullText \<noteq> [] \<Longrightarrow> 0 # map endChar cs = map startChar cs @ [length fullText]"
    and empty: "fullText = [] \<Longrightarrow> cs = []"
    and texts: "map text' cs = map (\<lambda>c. substring fullText (startChar c) (endChar c)) cs"
    and cat: "concat (map text' cs) = fullText"
    and ids: "map id' cs = [0..<length cs]"
    and pos: "\<forall>c \<in> set cs. startChar c < endChar c"
    using lists by blast+
  have ne: "cs \<noteq> []" if "fullText \<noteq> []"
    using cat that by auto
  have first: "startChar (cs ! 0) = 0" if "fullText \<noteq> []"
  proof -
    have "(0 # map endChar cs) ! 0 = (map startChar cs @ [length fullText]) ! 0"
      using bounds[OF that] by simp
    then show ?thesis using ne[OF that] by (simp add: nth_append)
  qed
  have fin: "endChar (last cs) = length fullText" if "fullText \<noteq> []"
  proof -
    have "last (0 # map endChar cs) = last (map startChar cs @ [length fullText])"
      using bounds[OF that] by simp
    then show ?thesis using ne[OF that] by (simp add: last_map)
  qed
  have chain: "endChar (cs ! k) = startChar (cs ! Suc k)" if "Suc k < length cs" for k
  proof -
    have "fullText \<noteq> []" using that empty by auto
    then have "(0 # map endChar cs) ! Suc k = (map startChar cs @ [length fullText]) ! Suc k"
      using bounds by simp
    then show ?thesis using that by (simp add: nth_append)
  qed
  have slices: "text' c = substring fullText (startChar c) (endChar c)" if "c \<in> set cs" for c
    using texts that by auto
  have idk: "id' (cs ! k) = k" if "k < length cs" for k
  proof -
    have "map id' cs ! k = [0..<length cs] ! k" using ids by simp
    then show ?thesis using that by simp
  qed
  show ?thesis
    unfolding cs_def[symmetric] Let_def using ne first fin chain slices idk cat empty pos by blast
qed

theorem createPageAwareChunks_partition_witness:
  "(let fullText = replicate 150001 CHR ''a'';
        cs = createPageAwareChunks noAnnotations fullText [] None in
      length cs = 2 \<and> startChar (cs ! 0) = 0 \<and> endChar (cs ! 0) = startChar (cs ! 1)
    \<and> endChar (last cs) = 150001 \<and> id' (cs ! 1) = 1
    \<and> text' (cs ! 1) = substring fullText (startChar (cs ! 1)) (endChar (cs ! 1))
    \<and> concat (map text' cs) = fullText)"
proof -
  define fullText where "fullText = replicate 150001 CHR ''a''"
  define cs where "cs = createPageAwareChunks noAnnotations fullText [] None"
  have len: "length cs = 2"
    by (simp add: cs_def fullText_def createPageAwareChunks_def CHUNK_SIZE_def substring_def Let_def)
  have ne: "fullText \<noteq> []" and L: "length fullText = 150001"
    by (simp_all add: fullText_def)
  have mem: "cs ! 1 \<in> set cs"
    using len by simp
  note p = createPageAwareChunks_partition[of noAnnotations fullText "[]" None,
      unfolded Let_def, folded cs_def]
  have "startChar (cs ! 0) = 0" "endChar (last cs) = 150001"
    using p ne L by simp_all
  moreover have "endChar (cs ! 0) = startChar (cs ! 1)"
    using p len by simp
  moreover have "id' (cs ! 1) = 1"
    using p len by simp
  moreover have "text' (cs ! 1) = substring fullText (startChar (cs ! 1)) (endChar (cs ! 1))"
    using p mem by blast
  moreover have "concat (map text' cs) = fullText"
    using p by blast
  ultimately show ?thesis
    unfolding Let_def fullText_def[symmetric] cs_def[symmetric] using len by blast
qed

section \<open>Reconstructed text has no boundary whitespace\<close>

lemma noLeadingSpace_simps [simp]:
  "noLeadingSpace []" "noLeadingSpace (c # cs) = (\<not> isSpace c)"
  by (simp_all add: noLeadingSpace_def)

lemma noLeadingSpace_append:
  "noLeadingSpace (a @ b) = (if a = [] then noLeadingSpace b else noLeadingSpace a)"
  by (cases a) simp_all

lemma noTrailingSpace_append:
  "noTrailingSpace (a @ b) = (if b = [] then noTrailingSpace a else noTrailingSpace b)"
  by (simp add: noTrailingSpace_def noLeadingSpace_append)

lemma noLeadingSpace_dropWhile: "noLeadingSpace (dropWhile isSpace s)"
  by (induction s) simp_all

lemma noTrailingSpace_dropWhile: "noTrailingSpace s \<Longrightarrow> noTrailingSpace (dropWhile isSpace s)"
  by (induction s) (simp_all add: noTrailingSpace_def noLeadingSpace_append split: if_splits)

lemma trim_noTrailingSpace: "noTrailingSpace (trim s)"
  by (simp add: trim_def noTrailingSpace_def noLeadingSpace_dropWhile)

lemma trim_noLeadingSpace: "noLeadingSpace (trim s)"
proof -
  have "noTrailingSpace (rev (dropWhile isSpace s))"
    by (simp add: noTrailingSpace_def noLeadingSpace_dropWhile)
  then have "noTrailingSpace (dropWhile isSpace (rev (dropWhile isSpace s)))"
    by (rule noTrailingSpace_dropWhile)
  then show ?thesis by (simp add: trim_def noTrailingSpace_def)
qed

lemma replaceAll_nonempty:
  "s \<noteq> [] \<Longrightarrow> w \<noteq> [] \<Longrightarrow> replaceAll r (\<lambda>m g. w) s \<noteq> []"
  by (subst replaceAll.simps) (auto split: list.splits)

lemma replaceAll_noLeadingSpace:
  assumes "noLeadingSpace s" "w \<noteq> []" "noLeadingSpace w"
  shows "noLeadingSpace (replaceAll r (\<lambda>m g. w) s)"
  using assms by (subst replaceAll.simps) (auto split: list.splits simp: noLeadingSpace_append)

lemma ends_suffix: "(g, s') \<in> set (ends r s) \<Longrightarrow> \<exists>m. s = m @ s'"
proof (induction r arbitrary: g s s')
  case (Cls P)
  then show ?case by (cases s) (auto split: if_splits)
next
  case (Seq r1 r2)
  then obtain g1 s1 g2 where "(g1, s1) \<in> set (ends r1 s)" "(g2, s') \<in> set (ends r2 s1)"
    by auto
  then obtain m1 m2 where "s = m1 @ s1" "s1 = m2 @ s'"
    using Seq.IH by blast
  then show ?case by simp
next
  case (Rep P n)
  then obtain k where "s' = drop k s" by auto
  then have "s = take k s @ s'" by simp
  then show ?case by blast
next
  case (Grp r)
  then show ?case by auto
qed auto

lemma replaceAll_Nil: "replaceAll r (\<lambda>m g. w) [] = [] \<or> replaceAll r (\<lambda>m g. w) [] = w"
  by (simp add: replaceAll.simps[of r _ "[]"] split: list.splits)

lemma noTrailingSpace_Nil [simp]: "noTrailingSpace []"
  by (simp add: noTrailingSpace_def)

lemma noTrailingSpace_Cons: "cs \<noteq> [] \<Longrightarrow> noTrailingSpace (c # cs) = noTrailingSpace cs"
  by (simp add: noTrailingSpace_def noLeadingSpace_append)

lemma replaceAll_noTrailingSpace:
  assumes w: "w \<noteq> []" "noTrailingSpace w"
  shows "noTrailingSpace s \<Longrightarrow> noTrailingSpace (replaceAll r (\<lambda>m g. w) s)"
proof (induction "length s" arbitrary: s rule: less_induct)
  case less
  let ?R = "replaceAll r (\<lambda>m g. w)"
  have tail: "noTrailingSpace (c # ?R cs)" if "s = c # cs" for c cs
  proof (cases "cs = []")
    case True
    then show ?thesis
      using replaceAll_Nil[of r w] that less.prems w
      by (auto simp: noTrailingSpace_def noLeadingSpace_append)
  next
    case False
    then have "noTrailingSpace cs" using less.prems that by (simp add: noTrailingSpace_Cons)
    then have "noTrailingSpace (?R cs)" using less.hyps[of cs] that by simp
    moreover have "?R cs \<noteq> []" using False w(1) by (rule replaceAll_nonempty)
    ultimately show ?thesis by (simp add: noTrailingSpace_Cons)
  qed
  show ?case
  proof (cases "ends r s")
    case Nil
    then show ?thesis
      using tail by (subst replaceAll.simps) (auto split: list.splits)
  next
    case (Cons p ps)
    obtain g rest where p: "p = (g, rest)" by (cases p)
    then obtain m where m: "s = m @ rest"
      using ends_suffix[of g rest r s] Cons by auto
    show ?thesis
    proof (cases "length rest < length s")
      case True
      have "noTrailingSpace (w @ ?R rest)"
      proof (cases "rest = []")
        case True
        then show ?thesis using replaceAll_Nil[of r w] w by (auto simp: noTrailingSpace_append)
      next
        case False
        then have "noTrailingSpace rest" using less.prems m by (simp add: noTrailingSpace_append)
        then have "noTrailingSpace (?R rest)" using less.hyps[of rest] True by simp
        moreover have "?R rest \<noteq> []" using False w(1) by (rule replaceAll_nonempty)
        ultimately show ?thesis by (simp add: noTrailingSpace_append)
      qed
      then show ?thesis using Cons p True by (subst replaceAll.simps) simp
    next
      case False
      have "noTrailingSpace (w @ (case s of [] \<Rightarrow> [] | c # cs \<Rightarrow> c # ?R cs))"
        using tail w by (cases s) (simp_all add: noTrailingSpace_append)
      then show ?thesis using Cons p False by (subst replaceAll.simps) simp
    qed
  qed
qed

lemma applyAll_words_trimmed:
  assumes "\<forall>(p, rep) \<in> set ps. \<exists>w. rep = [Txt w] \<and> cleanWord w"
    and "noLeadingSpace s" "noTrailingSpace s"
  shows "noLeadingSpace (applyAll ps s) \<and> noTrailingSpace (applyAll ps s)"
  using assms unfolding applyAll_def
proof (induction ps arbitrary: s)
  case Nil
  then show ?case by simp
next
  case (Cons a ps)
  obtain p rep where a: "a = (p, rep)" by (cases a)
  then obtain w where w: "rep = [Txt w]" "cleanWord w" using Cons.prems(1) by auto
  have e: "expand rep = (\<lambda>m g. w)" using w(1) by (simp add: fun_eq_iff)
  have "noLeadingSpace (replaceAll p (expand rep) s)" "noTrailingSpace (replaceAll p (expand rep) s)"
    unfolding e using w(2) Cons.prems(2,3)
    by (simp_all add: cleanWord_def replaceAll_noLeadingSpace replaceAll_noTrailingSpace)
  then show ?case using Cons.IH[of "replaceAll p (expand rep) s"] Cons.prems(1) a by simp
qed

lemma commonWords_clean:
  "\<forall>(p, rep) \<in> set (map (\<lambda>(fragmented, word). (litCI fragmented, [Txt word])) commonWordsMap).
     \<exists>w. rep = [Txt w] \<and> cleanWord w"
  by (simp add: commonWordsMap_def cleanWord_def noTrailingSpace_def isSpace_def)

text \<open>
  C10. \<open>reconstructText\<close> returns the empty string for \<open>null\<close>, \<open>undefined\<close> and the
  empty string, and for every input string its result has no leading and no trailing
  whitespace: the literal phrase substitutions of step 7 replace phrases by words that
  neither start nor end with whitespace, so they keep what the trim of step 6 established.
\<close>

theorem reconstructText_trimmed:
  "reconstructText None = [] \<and> reconstructText (Some []) = []
   \<and> noLeadingSpace (reconstructText (Some raw)) \<and> noTrailingSpace (reconstructText (Some raw))"
proof -
  have "noLeadingSpace (step7 (step6 s)) \<and> noTrailingSpace (step7 (step6 s))" for s
    unfolding step7_def
    by (rule applyAll_words_trimmed[OF commonWords_clean])
       (simp_all add: step6_def trim_noLeadingSpace trim_noTrailingSpace)
  then show ?thesis
    by (simp add: reconstructText_def noTrailingSpace_def)
qed

theorem reconstructText_trimmed_witness:
  "reconstructText (Some ''  larg ER nuts and ANCHORS '') = ''larger nuts and anchor''
   \<and> noLeadingSpace (reconstructText (Some ''  larg ER nuts and ANCHORS ''))
   \<and> noTrailingSpace (reconstructText (Some ''  larg ER nuts and ANCHORS ''))"
proof -
  have "reconstructText (Some ''  larg ER nuts and ANCHORS '') = ''larger nuts and anchor''"
    by code_simp
  then show ?thesis
    using reconstructText_trimmed[of "''  larg ER nuts and ANCHORS ''"] by simp
qed

section \<open>Reconstructor idempotence\<close>












lemma adjFree_Nil [simp]: "adjFree []"
  by (simp add: adjFree_def)



lemma trim_infix: "\<exists>p q. x = p @ trim x @ q"
proof -
  define d where "d = dropWhile isSpace x"
  have "rev d = takeWhile isSpace (rev d) @ dropWhile isSpace (rev d)" by simp
  then have "rev (rev d) = rev (takeWhile isSpace (rev d) @ dropWhile isSpace (rev d))" by simp
  then have "d = trim x @ rev (takeWhile isSpace (rev d))"
    by (simp add: trim_def d_def del: takeWhile_dropWhile_id)
  moreover have "x = takeWhile isSpace x @ d" by (simp add: d_def)
  ultimately show ?thesis by metis
qed




















section \<open>Page order of the chunks\<close>

lemma fillPage_spec:
  "cur \<le> L \<Longrightarrow> fillPage L p k (m, cur) =
     ((\<lambda>pos. if cur \<le> pos \<and> pos < min L (cur + k) then Some p else m pos), min L (cur + k))"
proof (induction k arbitrary: m cur)
  case 0
  then show ?case by (auto simp: fun_eq_iff)
next
  case (Suc k)
  show ?case
  proof (cases "cur < L")
    case True
    then have "Suc cur \<le> L" by simp
    then have "fillPage L p k (m(cur \<mapsto> p), Suc cur) =
       ((\<lambda>pos. if Suc cur \<le> pos \<and> pos < min L (Suc cur + k) then Some p else (m(cur \<mapsto> p)) pos),
        min L (Suc cur + k))"
      by (rule Suc.IH)
    moreover have "fillPage L p (Suc k) (m, cur) = fillPage L p k (m(cur \<mapsto> p), Suc cur)"
      using True by simp
    moreover have "(\<lambda>pos. if Suc cur \<le> pos \<and> pos < min L (Suc cur + k) then Some p else (m(cur \<mapsto> p)) pos)
       = (\<lambda>pos. if cur \<le> pos \<and> pos < min L (cur + Suc k) then Some p else m pos)"
      using True by (auto simp: fun_eq_iff)
    ultimately show ?thesis by simp
  next
    case False
    then show ?thesis using Suc.prems by (auto simp: fun_eq_iff)
  qed
qed

lemma fillPage_tabulate:
  "fillPage L p n (tabulate L W, min L (length W)) =
     (tabulate L (W @ replicate n p), min L (length (W @ replicate n p)))"
proof -
  have "fillPage L p n (tabulate L W, min L (length W)) =
     ((\<lambda>pos. if min L (length W) \<le> pos \<and> pos < min L (min L (length W) + n) then Some p
              else tabulate L W pos), min L (min L (length W) + n))"
    by (rule fillPage_spec) simp
  moreover have "(\<lambda>pos. if min L (length W) \<le> pos \<and> pos < min L (min L (length W) + n) then Some p
              else tabulate L W pos) = tabulate L (W @ replicate n p)"
    by (auto simp: fun_eq_iff tabulate_def nth_append)
  moreover have "min L (min L (length W) + n) = min L (length (W @ replicate n p))"
    by auto
  ultimately show ?thesis by simp
qed

lemma walk_foldl:
  "foldl (\<lambda>st pageNum. fillPage L pageNum (length (pageTextOf pd pageNum) + 1) st)
      (tabulate L W, min L (length W)) ks
   = (tabulate L (W @ concat (map (\<lambda>k. replicate (length (pageTextOf pd k) + 1) k) ks)),
      min L (length (W @ concat (map (\<lambda>k. replicate (length (pageTextOf pd k) + 1) k) ks))))"
proof (induction ks arbitrary: W)
  case Nil
  then show ?case by simp
next
  case (Cons k ks)
  show ?case
    using Cons.IH[of "W @ replicate (length (pageTextOf pd k) + 1) k"]
    by (simp add: fillPage_tabulate del: fillPage.simps replicate.simps)
qed

lemma createCharToPageMap_tabulate:
  "createCharToPageMap t pd = tabulate (length t) (pageWalk pd)"
proof -
  have "(Map.empty, 0) = (tabulate (length t) [], min (length t) (length ([]::nat list)))"
    by (simp add: tabulate_def fun_eq_iff)
  then show ?thesis
    unfolding createCharToPageMap_def createCharToPageMapState_def pageWalk_def
    using walk_foldl[of "length t" pd "[]" "sortedPages pd"] by simp
qed

lemma sorted_walk: "sorted ks \<Longrightarrow> sorted (concat (map (\<lambda>k. replicate (f k) k) ks))"
  by (induction ks) (auto simp: sorted_append)

lemma sorted_pageWalk: "sorted (pageWalk pd)"
  unfolding pageWalk_def sortedPages_def by (rule sorted_walk) simp

lemma set_pageWalk: "set (pageWalk pd) \<subseteq> set (sortedPages pd)"
  unfolding pageWalk_def by auto

lemma chunkLoop_fields:
  "c \<in> set (chunkLoop this t m tp i acc) \<Longrightarrow>
   c \<in> set acc \<or> (startChar c < endChar c \<and> endChar c \<le> length t
      \<and> startPage c = orOne (m (startChar c)) \<and> endPage c = orElse (m (endChar c - 1)) tp)"
proof (induction this t m tp i acc rule: chunkLoop.induct)
  case (1 this t m tp i acc)
  show ?case
  proof (cases "i < length t")
    case False
    then show ?thesis using "1.prems" by simp
  next
    case True
    define d where "d = \<lparr>id' = length acc, text' = substring t i (i + CHUNK_SIZE), startChar = i,
        endChar = min (i + CHUNK_SIZE) (length t), startPage = orOne (m i),
        endPage = orElse (m (min (i + CHUNK_SIZE) (length t) - 1)) tp,
        pageReferences = extractPageReferences this (substring t i (i + CHUNK_SIZE)) (orOne (m i))
           (orElse (m (min (i + CHUNK_SIZE) (length t) - 1)) tp),
        sectionHeading = detectSectionHeading this (substring t i (i + CHUNK_SIZE)),
        topics = extractTopics this (substring t i (i + CHUNK_SIZE))\<rparr>"
    have step: "chunkLoop this t m tp i acc = chunkLoop this t m tp (i + CHUNK_SIZE) (acc @ [d])"
      using True by (subst chunkLoop.simps) (simp add: Let_def d_def)
    have "c \<in> set (acc @ [d]) \<or> (startChar c < endChar c \<and> endChar c \<le> length t
      \<and> startPage c = orOne (m (startChar c)) \<and> endPage c = orElse (m (endChar c - 1)) tp)"
      using "1.IH"[OF True refl refl refl refl refl refl, folded d_def] "1.prems" step by simp
    moreover have "startChar d < endChar d \<and> endChar d \<le> length t
      \<and> startPage d = orOne (m (startChar d)) \<and> endPage d = orElse (m (endChar d - 1)) tp"
      using True by (simp add: d_def CHUNK_SIZE_def)
    ultimately show ?thesis by auto
  qed
qed

lemma chunk_page_order:
  assumes tp: "tp = Some N"
    and N: "t \<noteq> [] \<Longrightarrow> 1 \<le> N"
    and cover: "(\<forall>k \<in> set (sortedPages pd). k \<le> N) \<or> length t \<le> length (pageWalk pd)"
    and c: "c \<in> set (createPageAwareChunks this t pd tp)"
  shows "\<exists>e. endPage c = Some e \<and> startPage c \<le> e"
proof -
  let ?m = "tabulate (length t) (pageWalk pd)"
  let ?W = "pageWalk pd"
  from c have f: "startChar c < endChar c" "endChar c \<le> length t"
    "startPage c = orOne (?m (startChar c))" "endPage c = orElse (?m (endChar c - 1)) tp"
    using chunkLoop_fields[of c this t ?m tp 0 "[]"]
    by (simp_all add: createPageAwareChunks_def createCharToPageMap_tabulate)
  have ne: "t \<noteq> []" using f by auto
  then have N1: "1 \<le> N" by (rule N)
  let ?i = "startChar c" and ?j = "endChar c - 1"
  have ij: "?i \<le> ?j" "?j < length t" using f by simp_all
  show ?thesis
  proof (cases "?j < length ?W")
    case True
    then have mj: "?m ?j = Some (?W ! ?j)" and mi: "?m ?i = Some (?W ! ?i)"
      using ij by (simp_all add: tabulate_def)
    have le: "?W ! ?i \<le> ?W ! ?j"
      using sorted_pageWalk[of pd] ij True by (simp add: sorted_iff_nth_mono)
    show ?thesis
      using f(3,4) mi mj le N1 tp by (auto simp: orOne_def orElse_def)
  next
    case False
    then have mj: "?m ?j = None" by (simp add: tabulate_def)
    have keys: "\<forall>k \<in> set (sortedPages pd). k \<le> N"
      using cover False ij by auto
    have "startPage c \<le> N"
    proof (cases "?m ?i")
      case None
      then show ?thesis using f(3) N1 by (simp add: orOne_def)
    next
      case (Some p)
      then have "p \<in> set ?W" by (auto simp: tabulate_def split: if_splits)
      then have "p \<le> N" using keys set_pageWalk by blast
      then show ?thesis using f(3) Some N1 by (simp add: orOne_def)
    qed
    then show ?thesis using f(4) mj tp by (simp add: orElse_def)
  qed
qed

lemma length_trim: "length (trim x) \<le> length x"
proof -
  obtain p q where "x = p @ trim x @ q" using trim_infix by blast
  then have "length x = length p + length (trim x) + length q" by (metis length_append add.assoc)
  then show ?thesis by simp
qed

lemma length_joinWith: "length (joinWith [c] xs) \<le> sum_list (map (\<lambda>x. length x + 1) xs)"
  by (induction "[c]" xs rule: joinWith.induct) simp_all

lemma length_pageWalk:
  "length (pageWalk pd) = sum_list (map (\<lambda>k. length (pageTextOf pd k) + 1) (sortedPages pd))"
  by (simp add: pageWalk_def length_concat comp_def)

lemma reader_supplies:
  assumes "extractTextWithPdfReader run = Extraction t pd tp"
  shows "t = [] \<or> (\<exists>N. tp = Some N \<and> 1 \<le> N \<and> length t \<le> length (pageWalk pd))"
proof (cases "snd run")
  case ReaderError
  then show ?thesis using assms by (simp add: extractTextWithPdfReader_def)
next
  case EndOfDocument
  then have t: "t = trim (joinWith [CHR 0x0A] (map (pageTextOf pd) (sortedPages pd)))"
    and tp: "tp = Some (length (sortedPages pd))"
    using assms by (auto simp: extractTextWithPdfReader_def Let_def)
  have "length t \<le> length (joinWith [CHR 0x0A] (map (pageTextOf pd) (sortedPages pd)))"
    unfolding t by (rule length_trim)
  also have "\<dots> \<le> sum_list (map (\<lambda>x. length x + 1) (map (pageTextOf pd) (sortedPages pd)))"
    by (rule length_joinWith)
  also have "\<dots> = length (pageWalk pd)"
    by (simp add: length_pageWalk comp_def)
  finally have cover: "length t \<le> length (pageWalk pd)" .
  have "t = []" if "sortedPages pd = []"
    using that by (simp add: t trim_def)
  then have "t = [] \<or> 1 \<le> length (sortedPages pd)"
    by (cases "sortedPages pd") auto
  then show ?thesis using tp cover by blast
qed

lemma keys_setPage: "fst ` set (setPage k v pd) = insert k (fst ` set pd)"
  by (auto simp: setPage_def image_iff)

lemma pdf2json_foldl:
  assumes "foldl (pdf2jsonPageStep dec) (ft0, pd0, n0) Pages = (ft, pd, n)"
    and "fst ` set pd0 = {1..<n0}" "1 \<le> n0"
  shows "fst ` set pd = {1..<n} \<and> n = n0 + length Pages \<and> (Pages = [] \<longrightarrow> ft = ft0)"
  using assms
proof (induction Pages arbitrary: ft0 pd0 n0)
  case Nil
  then show ?case by simp
next
  case (Cons page Pages)
  let ?pt = "pageTextOfPage dec page"
  have step: "pdf2jsonPageStep dec (ft0, pd0, n0) page
      = (ft0 @ ?pt @ [CHR 0x0A], setPage n0 (trim ?pt) pd0, Suc n0)"
    by (simp add: pdf2jsonPageStep_def Let_def)
  have keys: "fst ` set (setPage n0 (trim ?pt) pd0) = {1..<Suc n0}"
    using Cons.prems(2,3) by (auto simp: keys_setPage)
  have "fst ` set pd = {1..<n} \<and> n = Suc n0 + length Pages"
    using Cons.IH[of "ft0 @ ?pt @ [CHR 0x0A]" "setPage n0 (trim ?pt) pd0" "Suc n0"] Cons.prems(1) keys
    by (simp add: step)
  then show ?case by simp
qed

lemma sortedPages_keys: "set (sortedPages pd) = fst ` set pd"
  by (simp add: sortedPages_def)

lemma length_sortedPages: "length (sortedPages pd) = card (fst ` set pd)"
  by (simp add: sortedPages_def length_remdups_card_conv)

lemma pdf2json_supplies:
  assumes "extractTextWithPDF2JSON dec outcome = Extraction t pd tp"
  shows "t = [] \<or> (\<exists>N. tp = Some N \<and> 1 \<le> N \<and> (\<forall>k \<in> set (sortedPages pd). k \<le> N))"
proof -
  obtain pdfData where outcome: "outcome = DataReady pdfData"
    using assms by (cases outcome) (simp_all add: extractTextWithPDF2JSON_def)
  define Pages where "Pages = (case pdfData of None \<Rightarrow> [] | Some ps \<Rightarrow> ps)"
  obtain ft pd' n where fold: "foldl (pdf2jsonPageStep dec) ([], [], 1) Pages = (ft, pd', n)"
    by (metis prod_cases3)
  have res: "t = reconstructText (Some ft)" "pd = pd'" "tp = Some (length (sortedPages pd'))"
    using assms fold unfolding outcome extractTextWithPDF2JSON_def Pages_def
    by (cases pdfData; simp add: Let_def)+
  have inv: "fst ` set pd' = {1..<n}" "n = 1 + length Pages" "Pages = [] \<longrightarrow> ft = []"
    using pdf2json_foldl[OF fold] by simp_all
  have len: "length (sortedPages pd') = length Pages"
    using inv by (simp add: length_sortedPages)
  show ?thesis
  proof (cases "Pages = []")
    case True
    then have "t = []" using inv res by (simp add: reconstructText_def)
    then show ?thesis by simp
  next
    case False
    then have "1 \<le> length Pages" by (cases Pages) simp_all
    moreover have "\<forall>k \<in> set (sortedPages pd). k \<le> length Pages"
      using inv res by (auto simp: sortedPages_keys)
    ultimately show ?thesis using res len by simp
  qed
qed

lemma createPageAwareChunks_Nil: "createPageAwareChunks this [] pd tp = []"
  by (simp add: createPageAwareChunks_def)

text \<open>
  C5. For every full text, page map and page count that one of the two extraction methods
  resolves to, every chunk of \<open>createPageAwareChunks\<close> has an \<open>endPage\<close> and
  \<open>startPage \<le> endPage\<close>. PdfReader may number its pages from any number, but its page
  texts always cover the full text; PDF2JSON numbers its pages \<open>1 .. totalPages\<close>, and
  where its page texts do not cover the (reconstructed) full text the fallback
  \<open>endPage = totalPages\<close> is at least the start page.
\<close>

theorem createPageAwareChunks_page_order:
  assumes "extractTextWithPdfReader run = Extraction t pd tp
           \<or> extractTextWithPDF2JSON decodeURIComponent outcome = Extraction t pd tp"
    and "c \<in> set (createPageAwareChunks this t pd tp)"
  shows "\<exists>e. endPage c = Some e \<and> startPage c \<le> e"
proof -
  have ne: "t \<noteq> []" using assms(2) createPageAwareChunks_Nil by (cases t) auto
  from assms(1) obtain N where "tp = Some N" "1 \<le> N"
    "(\<forall>k \<in> set (sortedPages pd). k \<le> N) \<or> length t \<le> length (pageWalk pd)"
    using reader_supplies[of run t pd tp] pdf2json_supplies[of decodeURIComponent outcome t pd tp] ne
    by blast
  then show ?thesis using assms(2) by (intro chunk_page_order[of tp N t pd c this]) simp_all
qed

theorem createPageAwareChunks_page_order_witness:
  "(case extractTextWithPdfReader exampleRun of
      EmptyString \<Rightarrow> False
    | Extraction t pd tp \<Rightarrow>
        t = ''hello '' @ [CHR 0x0A] @ ''world'' \<and> map fst pd = [3, 2] \<and> tp = Some 2
        \<and> map (\<lambda>c. (startPage c, endPage c)) (createPageAwareChunks noAnnotations t pd tp)
            = [(2, Some 3)]
        \<and> (\<exists>e. endPage (hd (createPageAwareChunks noAnnotations t pd tp)) = Some e
               \<and> startPage (hd (createPageAwareChunks noAnnotations t pd tp)) \<le> e))"
proof -
  define t where "t = ''hello '' @ [CHR 0x0A] @ ''world''"
  define pd where "pd = [(3::nat, ''world ''), (2, ''hello '')]"
  define cs where "cs = createPageAwareChunks noAnnotations t pd (Some 2)"
  have run: "extractTextWithPdfReader exampleRun = Extraction t pd (Some 2)"
    unfolding t_def pd_def by code_simp
  have pages: "map (\<lambda>c. (startPage c, endPage c)) cs = [(2, Some 3)]"
    unfolding cs_def t_def pd_def
    by (simp add: createPageAwareChunks_def CHUNK_SIZE_def Let_def orOne_def orElse_def
        createCharToPageMap_tabulate tabulate_def pageWalk_def sortedPages_def pageTextOf_def)
  then have "hd cs \<in> set cs" by (cases cs) auto
  then have "\<exists>e. endPage (hd cs) = Some e \<and> startPage (hd cs) \<le> e"
    using createPageAwareChunks_page_order[of exampleRun t pd "Some 2" _ _ "hd cs" noAnnotations] run
    unfolding cs_def by blast
  then show ?thesis
    using run pages unfolding cs_def by (simp add: t_def pd_def)
qed

section \<open>Fallback between the extraction methods\<close>

lemma extractTextWithPdfReader_object: "extractTextWithPdfReader run \<noteq> EmptyString"
  by (simp add: extractTextWithPdfReader_def Let_def split: readerEnd.splits)

text \<open>
  C7. \<open>comprehensiveExtractPDF\<close> on a buffer that could be read, started in any world.
  PdfReader always resolves to an object, say with text \<open>t\<close>, page map \<open>pd\<close> and page count
  \<open>tp\<close>. The parsers run by the call are PdfReader and then PDF2JSON when \<open>t\<close> is empty or
  shorter than 100 characters, and PdfReader alone otherwise. The extraction used is that
  of PDF2JSON in the first case and that of PdfReader in the second: when it is the empty
  string the call throws; otherwise the call returns, and writes to the cache file of the
  chapter, the record with the text, page map, page count of that extraction, the chunks
  made from them and their search index (or throws when the index or the write fails,
  and then writes nothing). With \<open>t\<close> of at least 100 characters, result and world are the
  same whatever PDF2JSON would report on the buffer.
\<close>

theorem comprehensiveExtractPDF_fallback:
  "(case extractTextWithPdfReader (readerRun buffer) of
      EmptyString \<Rightarrow> False
    | Extraction t pd tp \<Rightarrow>
        (case comprehensiveExtractPDF this decodeURIComponent (Some buffer) writeFileOk chapterName now w of
           (result, w') \<Rightarrow>
             parserCalls w' = parserCalls w @ (if t = [] \<or> length t < 100 then [PdfReader, PDF2JSON]
                                              else [PdfReader])
             \<and> (case (if t = [] \<or> length t < 100
                       then extractTextWithPDF2JSON decodeURIComponent (pdf2json buffer)
                       else Extraction t pd tp) of
                   EmptyString \<Rightarrow>
                     result = Inl (ComprehensiveExtractionFailed TypeError) \<and> cacheFiles w' = cacheFiles w
                 | Extraction fullText pageData totalPages \<Rightarrow>
                     (case createSearchIndex fullText (createPageAwareChunks this fullText pageData totalPages) of
                        Inl e \<Rightarrow> result = Inl (ComprehensiveExtractionFailed e) \<and> cacheFiles w' = cacheFiles w
                      | Inr index \<Rightarrow>
                          (if writeFileOk
                           then result = Inr \<lparr>ec_chapterName = chapterName, ec_extractedAt = now,
                                   ec_text = fullText, ec_totalPages = totalPages, ec_pageData = pageData,
                                   ec_textChunks = createPageAwareChunks this fullText pageData totalPages,
                                   ec_searchIndex = index\<rparr>
                                \<and> cacheFiles w'
                                    = (replaceFirst ''.pdf'' ''.json'' chapterName,
                                       \<lparr>ec_chapterName = chapterName, ec_extractedAt = now,
                                        ec_text = fullText, ec_totalPages = totalPages, ec_pageData = pageData,
                                        ec_textChunks = createPageAwareChunks this fullText pageData totalPages,
                                        ec_searchIndex = index\<rparr>) # cacheFiles w
                           else result = Inl (ComprehensiveExtractionFailed WriteFileFailed)
                                \<and> cacheFiles w' = cacheFiles w)))
             \<and> (100 \<le> length t \<longrightarrow>
                  (\<forall>other. comprehensiveExtractPDF this decodeURIComponent
                             (Some (buffer\<lparr>pdf2json := other\<rparr>)) writeFileOk chapterName now w
                           = (result, w')))))"
proof (cases "extractTextWithPdfReader (readerRun buffer)")
  case EmptyString
  then show ?thesis using extractTextWithPdfReader_object by blast
next
  case (Extraction t pd tp)
  show ?thesis
  proof (cases "length t < 100")
    case True
    then show ?thesis
      by (simp add: comprehensiveExtractPDF_def callPdfReader_def callPDF2JSON_def writeFile_def
          Extraction Let_def split: extractionResult.splits sum.splits)
  next
    case False
    then have "t \<noteq> []" by auto
    then show ?thesis
      using False
      by (simp add: comprehensiveExtractPDF_def callPdfReader_def callPDF2JSON_def writeFile_def
          Extraction Let_def split: sum.splits)
  qed
qed

theorem comprehensiveExtractPDF_fallback_witness:
  "comprehensiveExtractPDF noAnnotations Some
      (Some \<lparr>readerRun = longRun, pdf2json = DataReady (Some examplePages)\<rparr>) True ''ch1.pdf'' ''2024''
      \<lparr>parserCalls = [], cacheFiles = []\<rparr>
     = (Inr longContent, \<lparr>parserCalls = [PdfReader], cacheFiles = [(''ch1.json'', longContent)]\<rparr>)
   \<and> comprehensiveExtractPDF noAnnotations Some
      (Some \<lparr>readerRun = exampleRun, pdf2json = DataReady (Some examplePages)\<rparr>) True ''ch1.pdf'' ''2024''
      \<lparr>parserCalls = [], cacheFiles = []\<rparr>
     = (Inr pagesContent, \<lparr>parserCalls = [PdfReader, PDF2JSON], cacheFiles = [(''ch1.json'', pagesContent)]\<rparr>)"
proof -
  define a where "a = replicate 100 CHR ''a''"
  have len: "length a = 100" and ne: "a \<noteq> []" by (auto simp: a_def)
  have name: "replaceFirst ''.pdf'' ''.json'' ''ch1.pdf'' = ''ch1.json''"
    by code_simp
  have long: "extractTextWithPdfReader longRun = Extraction a [(Suc 0, a @ '' '')] (Some (Suc 0))"
    by (simp add: a_def longRun_def extractTextWithPdfReader_def Let_def setPage_def pageTextOf_def
        sortedPages_def trim_def isSpace_def)
  have chunksLong: "createPageAwareChunks noAnnotations a [(Suc 0, a @ '' '')] (Some (Suc 0))
      = ec_textChunks longContent"
    using len
    by (simp add: createPageAwareChunks_def CHUNK_SIZE_def Let_def orOne_def orElse_def
        createCharToPageMap_tabulate tabulate_def pageWalk_def sortedPages_def pageTextOf_def
        noAnnotations_def longContent_def substring_def a_def[symmetric])
  have "createSearchIndex (replicate 100 CHR ''a'') (ec_textChunks longContent)
      = Inr [(replicate 100 CHR ''a'', [0])]"
    by code_simp
  then have indexLong: "createSearchIndex a (ec_textChunks longContent) = Inr [(a, [0])]"
    by (simp only: a_def)
  have recLong: "\<lparr>ec_chapterName = ''ch1.pdf'', ec_extractedAt = ''2024'', ec_text = a,
      ec_totalPages = Some (Suc 0), ec_pageData = [(Suc 0, a @ '' '')],
      ec_textChunks = ec_textChunks longContent, ec_searchIndex = [(a, [0])]\<rparr> = longContent"
    by (simp add: longContent_def a_def)
  obtain resultLong wLong where outLong: "comprehensiveExtractPDF noAnnotations Some
      (Some \<lparr>readerRun = longRun, pdf2json = DataReady (Some examplePages)\<rparr>) True ''ch1.pdf'' ''2024''
      \<lparr>parserCalls = [], cacheFiles = []\<rparr> = (resultLong, wLong)"
    by fastforce
  have "parserCalls wLong = [PdfReader] \<and> resultLong = Inr longContent
      \<and> cacheFiles wLong = [(''ch1.json'', longContent)]"
    using comprehensiveExtractPDF_fallback[where buffer = "\<lparr>readerRun = longRun, pdf2json = DataReady (Some examplePages)\<rparr>"
        and decodeURIComponent = Some and writeFileOk = True and chapterName = "''ch1.pdf''" and now = "''2024''"
        and w = "\<lparr>parserCalls = [], cacheFiles = []\<rparr>" and this = noAnnotations]
    by (simp add: outLong long len ne chunksLong indexLong name recLong del: replaceFirst.simps)
  then have l: "resultLong = Inr longContent"
    "wLong = \<lparr>parserCalls = [PdfReader], cacheFiles = [(''ch1.json'', longContent)]\<rparr>"
    by (cases wLong; simp)+
  have short: "extractTextWithPdfReader exampleRun
      = Extraction (''hello '' @ [CHR 0x0A] @ ''world'') [(3::nat, ''world ''), (2, ''hello '')] (Some 2)"
    by code_simp
  have pages: "extractTextWithPDF2JSON Some (DataReady (Some examplePages))
      = Extraction ''belaydeviceanchor'' [(2, ''anchor''), (Suc 0, ''belay device'')] (Some 2)"
    by code_simp
  have chunksPages: "createPageAwareChunks noAnnotations ''belaydeviceanchor''
      [(2, ''anchor''), (Suc 0, ''belay device'')] (Some 2) = ec_textChunks pagesContent"
    by (simp add: createPageAwareChunks_def CHUNK_SIZE_def Let_def orOne_def orElse_def
        createCharToPageMap_tabulate tabulate_def pageWalk_def sortedPages_def pageTextOf_def
        noAnnotations_def pagesContent_def substring_def)
  have indexPages: "createSearchIndex ''belaydeviceanchor'' (ec_textChunks pagesContent)
      = Inr [(''belaydeviceanchor'', [0])]"
    by code_simp
  have recPages: "\<lparr>ec_chapterName = ''ch1.pdf'', ec_extractedAt = ''2024'', ec_text = ''belaydeviceanchor'',
      ec_totalPages = Some 2, ec_pageData = [(2, ''anchor''), (Suc 0, ''belay device'')],
      ec_textChunks = ec_textChunks pagesContent, ec_searchIndex = [(''belaydeviceanchor'', [0])]\<rparr>
      = pagesContent"
    by (simp add: pagesContent_def)
  obtain resultPages wPages where outPages: "comprehensiveExtractPDF noAnnotations Some
      (Some \<lparr>readerRun = exampleRun, pdf2json = DataReady (Some examplePages)\<rparr>) True ''ch1.pdf'' ''2024''
      \<lparr>parserCalls = [], cacheFiles = []\<rparr> = (resultPages, wPages)"
    by fastforce
  have "parserCalls wPages = [PdfReader, PDF2JSON] \<and> resultPages = Inr pagesContent
      \<and> cacheFiles wPages = [(''ch1.json'', pagesContent)]"
    using comprehensiveExtractPDF_fallback[where buffer = "\<lparr>readerRun = exampleRun, pdf2json = DataReady (Some examplePages)\<rparr>"
        and decodeURIComponent = Some and writeFileOk = True and chapterName = "''ch1.pdf''" and now = "''2024''"
        and w = "\<lparr>parserCalls = [], cacheFiles = []\<rparr>" and this = noAnnotations]
    by (simp add: outPages short pages chunksPages indexPages name recPages del: replaceFirst.simps)
  then have s: "resultPages = Inr pagesContent"
    "wPages = \<lparr>parserCalls = [PdfReader, PDF2JSON], cacheFiles = [(''ch1.json'', pagesContent)]\<rparr>"
    by (cases wPages; simp)+
  show ?thesis using l s outLong outPages by (simp only:)
qed

text \<open>
  C6. When PdfReader reports an error and the PDF2JSON parser reports a data error,
  \<open>extractTextWithPDF2JSON\<close> resolves to the empty string, not to an empty result
  object, and \<open>comprehensiveExtractPDF\<close>, after running both parsers, throws: no chapter
  record is made and no cache file is written.
\<close>

theorem comprehensiveExtractPDF_dataError_throws:
  "extractTextWithPdfReader ([], ReaderError) = Extraction [] [] None
   \<and> extractTextWithPDF2JSON decodeURIComponent DataError = EmptyString
   \<and> comprehensiveExtractPDF this decodeURIComponent
        (Some \<lparr>readerRun = ([], ReaderError), pdf2json = DataError\<rparr>) True chapter now w
      = (Inl (ComprehensiveExtractionFailed TypeError), w\<lparr>parserCalls := parserCalls w @ [PdfReader, PDF2JSON]\<rparr>)"
  by (simp add: comprehensiveExtractPDF_def callPdfReader_def callPDF2JSON_def
      extractTextWithPdfReader_def extractTextWithPDF2JSON_def)

text \<open>The same holds whenever the PdfReader text is short and PDF2JSON reports a data
  error or \<open>parseBuffer\<close> throws.\<close>

lemma comprehensiveExtractPDF_EmptyString:
  assumes "extractTextWithPdfReader (readerRun buffer) = Extraction t pd tp" "length t < 100"
    and "pdf2json buffer = DataError \<or> pdf2json buffer = ParseBufferThrows"
  shows "comprehensiveExtractPDF this decodeURIComponent (Some buffer) writeFileOk chapter now w
     = (Inl (ComprehensiveExtractionFailed TypeError), w\<lparr>parserCalls := parserCalls w @ [PdfReader, PDF2JSON]\<rparr>)"
  using assms
  by (auto simp: comprehensiveExtractPDF_def callPdfReader_def callPDF2JSON_def extractTextWithPDF2JSON_def)

section \<open>Context snippet\<close>

lemma toLowerChar_plain [simp]:
  "toLowerChar CHR ''x'' = CHR ''x''"
  by (simp add: toLowerChar_def)

lemma lower_snippet: "toLowerCase snippetText = snippetText"
  by (simp add: toLowerCase_def snippetText_def toLowerChar_def)

text \<open>
  C4. \<open>getContextSnippet\<close> uses the index 0 both for "no word found yet" and for a word
  found at the start of the text. With the query words \<open>rope\<close> (at index 0) and
  \<open>anchor\<close> (at index 9) it centres the window on \<open>anchor\<close>, not on the earliest word,
  and returns the first 259 characters; with \<open>rope\<close> alone it returns the leading window
  of 500 characters, here the whole text. The window of 500 characters centred on index 0
  and clipped to the text is the first 250 characters.
\<close>

theorem getContextSnippet_not_earliest:
  "indexOf (toLowerCase snippetText) ''rope'' = Some 0
   \<and> indexOf (toLowerCase snippetText) ''anchor'' = Some 9
   \<and> getContextSnippet snippetText [''rope'', ''anchor''] CONTEXT_WINDOW = take 259 snippetText @ ''...''
   \<and> getContextSnippet snippetText [''rope'', ''anchor''] CONTEXT_WINDOW \<noteq> take 250 snippetText @ ''...''
   \<and> getContextSnippet snippetText [''rope''] CONTEXT_WINDOW = snippetText
   \<and> getContextSnippet snippetText [''rope''] CONTEXT_WINDOW \<noteq> take 250 snippetText @ ''...''"
proof -
  have differ: "take 259 snippetText @ ''...'' \<noteq> take 250 snippetText @ ''...''"
    "snippetText \<noteq> take 250 snippetText @ ''...''"
  proof -
    have "length (take 259 snippetText @ ''...'') \<noteq> length (take 250 snippetText @ ''...'')"
      "length snippetText \<noteq> length (take 250 snippetText @ ''...'')"
      by (simp_all add: snippetText_def)
    then show "take 259 snippetText @ ''...'' \<noteq> take 250 snippetText @ ''...''"
      "snippetText \<noteq> take 250 snippetText @ ''...''"
      by fastforce+
  qed
  have i1: "indexOf snippetText ''rope'' = Some 0"
    by (simp add: snippetText_def startsWith_def)
  have i2: "indexOf snippetText ''anchor'' = Some 9"
    by (simp add: snippetText_def startsWith_def)
  have len: "length snippetText = 316" by (simp add: snippetText_def)
  show ?thesis
    unfolding lower_snippet
    using differ
    by (simp add: getContextSnippet_def bestMatchStep_def lower_snippet i1 i2 len CONTEXT_WINDOW_def
        substring_def Let_def)
qed

section \<open>Chapter sections\<close>

lemma collect_map_Inr:
  assumes "\<And>x. x \<in> set xs \<Longrightarrow> f x = Inr (g x)"
  shows "collect (map f xs) = Inr (map g xs)"
  using assms by (induction xs) simp_all

lemma collect_map_inverse:
  assumes "\<And>x y. f x = Inr y \<Longrightarrow> p y = x" and "collect (map f xs) = Inr ys"
  shows "map p ys = xs"
  using assms(2)
proof (induction xs arbitrary: ys)
  case Nil
  then show ?case by simp
next
  case (Cons x xs)
  then show ?case using assms(1) by (auto split: sum.splits)
qed

lemma getBookMetadata_authors: "getBookMetadata bookName = Some m \<Longrightarrow> bm_authors m \<noteq> []"
  by (auto simp: getBookMetadata_def knownBooks_def split: if_splits)

lemma getBookMetadata_None:
  "getBookMetadata bookName = None \<longleftrightarrow> bookName \<in> set objectPrototypeKeys"
  by (auto simp: getBookMetadata_def knownBooks_def objectPrototypeKeys_def split: if_splits)

lemma formatCitation_Inr:
  "bookName \<notin> set objectPrototypeKeys \<Longrightarrow> \<exists>citation. formatCitation bookName chapterName heading = Inr citation"
  using getBookMetadata_None[of bookName]
  by (cases "getBookMetadata bookName") (simp_all add: formatCitation_def Let_def)

lemma formatInlineCitation_Inr:
  "bookName \<notin> set objectPrototypeKeys \<Longrightarrow> \<exists>citation. formatInlineCitation bookName chapterName = Inr citation"
  using getBookMetadata_None[of bookName] getBookMetadata_authors[of bookName]
  by (cases "getBookMetadata bookName")
     (auto simp: formatInlineCitation_def Let_def split: list.splits)

lemma citation_TypeError:
  "bookName \<in> set objectPrototypeKeys \<Longrightarrow>
     formatCitation bookName chapterName heading = Inl TypeError
     \<and> formatInlineCitation bookName chapterName = Inl TypeError"
  using getBookMetadata_None[of bookName]
  by (simp add: formatCitation_def formatInlineCitation_def)

lemma relevant_example:
  "relevantChunks ''anchor'' (ec_textChunks (mkContent ''anchors.pdf'' sectionChunks))
   = [mkChunk 0 ''an anchor'' [], mkChunk 1 ''anchor anchor anchor'' [''anchor''],
      mkChunk 3 ''two anchor anchor'' [], mkChunk 4 ''Anchor again'' []]"
  by code_simp

lemma cached_example:
  "getCachedContent sectionFs ''anchors.pdf'' = Some (mkContent ''anchors.pdf'' sectionChunks)"
  by (simp add: getCachedContent_def sectionFs_def startsWith_def)

text \<open>
  C9. On a cached chapter with four relevant chunks, the context level \<open>brief\<close> shows the
  first relevant chunk and an unknown level the first two. With the context level
  \<open>constructor\<close>, a name that the \<open>contextSizes\<close> object inherits, the section is rendered
  without any chunk, not with the two chunks of the default. With the book name
  \<open>constructor\<close>, a name that the \<open>bookMetadata\<close> object inherits, the call ends in the
  error result, for \<open>brief\<close> as for \<open>detailed\<close>, so no chunk is shown either.
\<close>

theorem getChapterSection_constructor:
  "getCachedContent sectionFs ''anchors.pdf'' = Some (mkContent ''anchors.pdf'' sectionChunks)
   \<and> map id' (relevantChunks ''anchor'' sectionChunks) = [0, 1, 3, 4]
   \<and> map_option (map id') (shownChunks (getChapterSection sectionFs ''Book'' ''anchors.pdf'' ''anchor'' ''brief''))
      = Some [0]
   \<and> map_option (map id') (shownChunks (getChapterSection sectionFs ''Book'' ''anchors.pdf'' ''anchor'' ''thorough''))
      = Some [0, 1]
   \<and> shownChunks (getChapterSection sectionFs ''Book'' ''anchors.pdf'' ''anchor'' ''constructor'') = Some []
   \<and> getChapterSection sectionFs ''constructor'' ''anchors.pdf'' ''anchor'' ''brief'' = SectionError
   \<and> getChapterSection sectionFs ''constructor'' ''anchors.pdf'' ''anchor'' ''detailed'' = SectionError"
proof -
  have rel: "relevantChunks ''anchor'' sectionChunks
     = [mkChunk 0 ''an anchor'' [], mkChunk 1 ''anchor anchor anchor'' [''anchor''],
        mkChunk 3 ''two anchor anchor'' [], mkChunk 4 ''Anchor again'' []]"
    using relevant_example by (simp add: mkContent_def)
  have book: "''Book'' \<notin> set objectPrototypeKeys" and constr: "''constructor'' \<in> set objectPrototypeKeys"
    by (simp_all add: objectPrototypeKeys_def)
  obtain full where full: "formatCitation ''Book'' ''anchors.pdf'' (Some ''anchor'') = Inr full"
    using formatCitation_Inr[OF book] by blast
  have render: "\<exists>e. renderChunk ''Book'' ''anchors.pdf'' c = Inr e \<and> ev_chunk e = c" for c
    using formatCitation_Inr[OF book, of "''anchors.pdf''" "sectionHeading c"]
      formatInlineCitation_Inr[OF book, of "''anchors.pdf''"]
    by (auto simp: renderChunk_def)
  define g where "g = (\<lambda>c. projr (renderChunk ''Book'' ''anchors.pdf'' c))"
  have rg: "renderChunk ''Book'' ''anchors.pdf'' c = Inr (g c)" and gc: "ev_chunk (g c) = c" for c
    using render[of c] by (auto simp: g_def)
  have coll: "collect (map (renderChunk ''Book'' ''anchors.pdf'') cs) = Inr (map g cs)" for cs
    by (rule collect_map_Inr) (rule rg)
  have shown: "shownChunks (getChapterSection sectionFs ''Book'' ''anchors.pdf'' ''anchor'' level)
      = Some (sliceTo (relevantChunks ''anchor'' sectionChunks) (maxChunksOf level))" for level
    by (simp add: getChapterSection_def cached_example Let_def rel[unfolded mkContent_def] mkContent_def full coll
        comp_def gc)
  have levels: "maxChunksOf ''brief'' = Count 1" "maxChunksOf ''thorough'' = Count 2"
    "maxChunksOf ''constructor'' = InheritedValue"
    by (simp_all add: maxChunksOf_def contextSizes_def objectPrototypeKeys_def)
  have err: "getChapterSection sectionFs ''constructor'' ''anchors.pdf'' ''anchor'' level = SectionError" for level
    using citation_TypeError[OF constr, of "''anchors.pdf''" "Some ''anchor''"]
    by (simp add: getChapterSection_def cached_example Let_def rel mkContent_def)
  show ?thesis
    by (simp add: cached_example shown levels err rel mkChunk_def)
qed

text \<open>
  For a cached chapter with at least one relevant chunk, a context level and a book name
  neither of which is an inherited name, \<open>getChapterSection\<close> shows the first \<open>N\<close> relevant
  chunks in the order of the cached chunk list, \<open>min N\<close> (number of relevant chunks) of
  them, where \<open>N\<close> is 1 for \<open>brief\<close>, 3 for \<open>comprehensive\<close> and 2 for \<open>detailed\<close> and
  every other such level.
\<close>

lemma getChapterSection_first_chunks:
  assumes "getCachedContent fs chapterName = Some cached"
    and "relevantChunks sectionTopic (ec_textChunks cached) \<noteq> []"
    and "contextLevel \<notin> set objectPrototypeKeys"
    and "bookName \<notin> set objectPrototypeKeys"
  shows "(let N = (if contextLevel = ''brief'' then 1 else if contextLevel = ''comprehensive'' then 3 else 2);
              relevant = filter (chunkMatches (tokenize sectionTopic)) (ec_textChunks cached)
          in shownChunks (getChapterSection fs bookName chapterName sectionTopic contextLevel)
               = Some (take N relevant)
             \<and> length (take N relevant) = min N (length relevant))"
proof -
  obtain full where full: "formatCitation bookName chapterName (Some sectionTopic) = Inr full"
    using formatCitation_Inr[OF assms(4)] by blast
  have render: "\<exists>e. renderChunk bookName chapterName c = Inr e \<and> ev_chunk e = c" for c
    using formatCitation_Inr[OF assms(4), of chapterName "sectionHeading c"]
      formatInlineCitation_Inr[OF assms(4), of chapterName]
    by (auto simp: renderChunk_def)
  define g where "g = (\<lambda>c. projr (renderChunk bookName chapterName c))"
  have rg: "renderChunk bookName chapterName c = Inr (g c)" and gc: "ev_chunk (g c) = c" for c
    using render[of c] by (auto simp: g_def)
  have coll: "collect (map (renderChunk bookName chapterName) cs) = Inr (map g cs)" for cs
    by (rule collect_map_Inr) (rule rg)
  show ?thesis
    using assms(1,2,3)
    by (auto simp: getChapterSection_def Let_def relevantChunks_def maxChunksOf_def contextSizes_def
        full coll comp_def gc)
qed

section \<open>Search scoring\<close>

lemma foldl_word_scores:
  "foldl (\<lambda>score word. score + int (f word) * 10) base ws = base + 10 * int (sum_list (map f ws))"
  by (induction ws arbitrary: base) simp_all

lemma foldl_topic_scores:
  "foldl (\<lambda>score topic. if P topic then score + 20 else score) base ts
     = base + 20 * int (length (filter P ts))"
  by (induction ts arbitrary: base) simp_all

lemma chunkScore_sum:
  "chunkScore metadataScore queryWords c
     = metadataScore
       + 10 * int (sum_list (map (regexCount (toLowerCase (text' c))) queryWords))
       + 20 * int (length (filter (\<lambda>topic. toLowerCase topic \<in> set queryWords) (topics c)))"
  by (simp add: chunkScore_def foldl_word_scores foldl_topic_scores)

lemma chunkScore_mono:
  assumes "topics c2 = topics c1"
    and "\<forall>v \<in> set queryWords. regexCount (toLowerCase (text' c1)) v \<le> regexCount (toLowerCase (text' c2)) v"
  shows "chunkScore metadataScore queryWords c1 \<le> chunkScore metadataScore queryWords c2"
proof -
  have "sum_list (map (regexCount (toLowerCase (text' c1))) queryWords)
      \<le> sum_list (map (regexCount (toLowerCase (text' c2))) queryWords)"
    using assms(2) by (intro sum_list_mono) simp
  then show ?thesis using assms(1) by (simp add: chunkScore_sum)
qed

text \<open>
  C3. A second text can have strictly more occurrences of one query word and fewer of
  the others, since the inserted word can break up their occurrences. With the query
  words \<open>rope\<close>, \<open>open\<close> and \<open>knot\<close>, the text \<open>ropen\<close> has one match of \<open>rope\<close> and one of
  \<open>open\<close> and scores 20; \<open>roknotpen\<close>, the same text with \<open>knot\<close> inserted, has one match
  of \<open>knot\<close> and none of the other two words, and scores 10.
\<close>

theorem chunkScore_insertion_lowers:
  "map (regexCount (toLowerCase ''ropen'')) [''rope'', ''open'', ''knot''] = [1, 1, 0]
   \<and> map (regexCount (toLowerCase ''roknotpen'')) [''rope'', ''open'', ''knot''] = [0, 0, 1]
   \<and> chunkScore 0 [''rope'', ''open'', ''knot''] (mkChunk 0 ''ropen'' []) = 20
   \<and> chunkScore 0 [''rope'', ''open'', ''knot''] ((mkChunk 0 ''ropen'' [])\<lparr>text' := ''roknotpen''\<rparr>) = 10"
  by code_simp

text \<open>
  C3, as amended. Two chunks that are identical except for the text, where the second
  text has strictly more regex-counted occurrences of one query word and no fewer of
  every other query word: the score of the second (the same seed, 10 per occurrence, 20
  per topic that is a query word) is at least the score of the first.
\<close>

theorem chunkScore_more_occurrences:
  assumes "c2 = c1\<lparr>text' := t2\<rparr>"
    and "w \<in> set queryWords"
    and "regexCount (toLowerCase (text' c1)) w < regexCount (toLowerCase t2) w"
    and "\<forall>v \<in> set queryWords. v \<noteq> w \<longrightarrow> regexCount (toLowerCase (text' c1)) v \<le> regexCount (toLowerCase t2) v"
  shows "chunkScore metadataScore queryWords c1 \<le> chunkScore metadataScore queryWords c2"
proof (rule chunkScore_mono)
  show "topics c2 = topics c1" using assms(1) by simp
  show "\<forall>v \<in> set queryWords. regexCount (toLowerCase (text' c1)) v \<le> regexCount (toLowerCase (text' c2)) v"
  proof
    fix v assume v: "v \<in> set queryWords"
    have t: "text' c2 = t2" using assms(1) by simp
    show "regexCount (toLowerCase (text' c1)) v \<le> regexCount (toLowerCase (text' c2)) v"
    proof (cases "v = w")
      case True
      then show ?thesis using assms(3) t by simp
    next
      case False
      then show ?thesis using assms(4) v t by simp
    qed
  qed
qed

theorem chunkScore_more_occurrences_witness:
  "chunkScore 50 [''rope'', ''knot''] (mkChunk 0 ''a knot in the rope'' [''rope'']) = 90
   \<and> chunkScore 50 [''rope'', ''knot'']
        ((mkChunk 0 ''a knot in the rope'' [''rope''])\<lparr>text' := ''a Rope, a knot in the rope''\<rparr>) = 100
   \<and> chunkScore 50 [''rope'', ''knot''] (mkChunk 0 ''a knot in the rope'' [''rope''])
       \<le> chunkScore 50 [''rope'', ''knot'']
            ((mkChunk 0 ''a knot in the rope'' [''rope''])\<lparr>text' := ''a Rope, a knot in the rope''\<rparr>)"
proof -
  have c1: "regexCount (toLowerCase ''a knot in the rope'') ''rope'' = 1"
    "regexCount (toLowerCase ''a knot in the rope'') ''knot'' = 1" by code_simp+
  have c2: "regexCount (toLowerCase ''a Rope, a knot in the rope'') ''rope'' = 2"
    "regexCount (toLowerCase ''a Rope, a knot in the rope'') ''knot'' = 1" by code_simp+
  have v1: "chunkScore 50 [''rope'', ''knot''] (mkChunk 0 ''a knot in the rope'' [''rope'']) = 90"
    by code_simp
  have v2: "chunkScore 50 [''rope'', ''knot'']
        ((mkChunk 0 ''a knot in the rope'' [''rope''])\<lparr>text' := ''a Rope, a knot in the rope''\<rparr>) = 100"
    by code_simp
  have "chunkScore 50 [''rope'', ''knot''] (mkChunk 0 ''a knot in the rope'' [''rope''])
       \<le> chunkScore 50 [''rope'', ''knot'']
            ((mkChunk 0 ''a knot in the rope'' [''rope''])\<lparr>text' := ''a Rope, a knot in the rope''\<rparr>)"
    by (rule chunkScore_more_occurrences[where w = "''rope''" and ?t2.0 = "''a Rope, a knot in the rope''"])
       (simp_all add: c1 c2 mkChunk_def)
  then show ?thesis using v1 v2 by simp
qed

lemma ends_lit: "ends (lit w) s = (if startsWith s w then [([], drop (length w) s)] else [])"
proof (induction w arbitrary: s)
  case Nil
  then show ?case by (simp add: lit_def seqs_def startsWith_def)
next
  case (Cons p ps)
  have l: "lit (p # ps) = Seq (Cls (\<lambda>c. c = p)) (lit ps)" by (simp add: lit_def seqs_def)
  show ?case
  proof (cases s)
    case Nil
    then show ?thesis by (simp add: l startsWith_def)
  next
    case (Cons c cs)
    then show ?thesis using Cons.IH[of cs] by (auto simp: l startsWith_def)
  qed
qed

lemma regexCount_rec:
  assumes "w \<noteq> []"
  shows "regexCount s w = (if startsWith s w then Suc (regexCount (drop (length w) s) w)
                           else (case s of [] \<Rightarrow> 0 | c # cs \<Rightarrow> regexCount cs w))"
proof (cases "startsWith s w")
  case True
  then have "length w \<le> length s" by (metis startsWith_def length_take min.cobounded1 min_def nat_le_linear)
  then have "length (drop (length w) s) < length s" using assms by (cases w) auto
  then show ?thesis using True
    by (simp add: regexCount_def matchAll.simps[of "lit w" s] ends_lit)
next
  case False
  then show ?thesis
    by (simp add: regexCount_def matchAll.simps[of "lit w" s] ends_lit split: list.splits)
qed

lemma regexCount_short: "length s < length w \<Longrightarrow> regexCount s w = 0"
proof (induction s)
  case Nil
  then have "w \<noteq> []" by auto
  moreover have "\<not> startsWith [] w" using \<open>w \<noteq> []\<close> by (simp add: startsWith_def)
  ultimately show ?case by (simp add: regexCount_rec)
next
  case (Cons c cs)
  then have w: "w \<noteq> []" by auto
  have "\<not> startsWith (c # cs) w"
    using Cons.prems by (metis startsWith_def length_take min.absorb2 less_imp_le_nat nat_neq_iff min_def)
  then show ?case using Cons w by (simp add: regexCount_rec)
qed

lemma regexCount_append:
  assumes w: "w \<noteq> []"
  shows "regexCount s w \<le> regexCount (s @ e) w"
proof (induction "length s" arbitrary: s rule: less_induct)
  case less
  show ?case
  proof (cases "startsWith s w")
    case True
    then have len: "length w \<le> length s"
      by (metis startsWith_def length_take min.cobounded1 min_def nat_le_linear)
    then have pre: "startsWith (s @ e) w" using True by (simp add: startsWith_def)
    have d: "drop (length w) (s @ e) = drop (length w) s @ e" using len by simp
    have "length (drop (length w) s) < length s" using len w by (cases w) auto
    then have "regexCount (drop (length w) s) w \<le> regexCount (drop (length w) s @ e) w"
      by (rule less)
    then show ?thesis using True pre d w by (simp add: regexCount_rec[of w s] regexCount_rec[of w "s @ e"])
  next
    case False
    show ?thesis
    proof (cases s)
      case Nil
      then show ?thesis using False w by (simp add: regexCount_rec[of w "[]"])
    next
      case (Cons c cs)
      show ?thesis
      proof (cases "startsWith (s @ e) w")
        case True
        have "length s < length w"
        proof (rule ccontr)
          assume "\<not> length s < length w"
          then have "length w \<le> length s" by simp
          then have "take (length w) (s @ e) = take (length w) s" by simp
          moreover have "take (length w) (s @ e) = w" using True unfolding startsWith_def .
          ultimately have "take (length w) s = w" by (simp only:)
          then show False using False unfolding startsWith_def by blast
        qed
        then show ?thesis by (simp add: regexCount_short)
      next
        case F2: False
        have "regexCount cs w \<le> regexCount (cs @ e) w" using less[of cs] Cons by simp
        then show ?thesis
          using False F2 Cons w by (simp add: regexCount_rec[of w "c # cs"] regexCount_rec[of w "c # cs @ e"])
      qed
    qed
  qed
qed

text \<open>Adding text at the end of a chunk never lowers its score.\<close>

lemma chunkScore_append:
  assumes "\<forall>w \<in> set queryWords. w \<noteq> []"
  shows "chunkScore metadataScore queryWords c
       \<le> chunkScore metadataScore queryWords (c\<lparr>text' := text' c @ extra\<rparr>)"
proof (rule chunkScore_mono)
  show "topics (c\<lparr>text' := text' c @ extra\<rparr>) = topics c" by simp
  show "\<forall>v \<in> set queryWords. regexCount (toLowerCase (text' c)) v
          \<le> regexCount (toLowerCase (text' (c\<lparr>text' := text' c @ extra\<rparr>))) v"
    using assms by (simp add: toLowerCase_def regexCount_append)
qed

section \<open>Search ranking\<close>


text \<open>What holds of every search that does render results.\<close>

lemma sortDescending_descending: "descending key (sortDescending key xs)"
proof -
  have "sorted (map (\<lambda>x. - key x) (sort_key (\<lambda>x. - key x) xs))" by (rule sorted_sort_key)
  then show ?thesis
    by (simp add: descending_def sortDescending_def sorted_wrt_map)
qed

lemma set_sortDescending [simp]: "set (sortDescending key xs) = set xs"
  by (simp add: sortDescending_def)

lemma descending_take: "descending key xs \<Longrightarrow> descending key (take n xs)"
  unfolding descending_def by (rule sorted_wrt_take)

lemma descending_take_drop:
  assumes "descending key xs" and "x \<in> set (take n xs)" and "y \<in> set (drop n xs)"
  shows "key y \<le> key x"
proof -
  have "sorted_wrt (\<lambda>a b. key a \<ge> key b) (take n xs @ drop n xs)"
    using assms(1) by (simp add: descending_def)
  then show ?thesis using assms(2,3) unfolding sorted_wrt_append by blast
qed

lemma scoredMatches_descending: "descending scoreOf (scoredMatches queryWords score md chunks)"
  by (simp add: scoredMatches_def Let_def sortDescending_descending) (simp add: descending_def)

lemma scoredMatches_chunks:
  assumes "filter (chunkMatches queryWords) chunks \<noteq> []"
  shows "scoredMatches queryWords score md chunks
     = sortDescending scoreOf
         (map (\<lambda>c. ChunkMatch c (chunkScore score queryWords c)) (filter (chunkMatches queryWords) chunks))"
proof -
  let ?matches = "map (\<lambda>c. ChunkMatch c (chunkScore score queryWords c)) (filter (chunkMatches queryWords) chunks)"
  have "length (sortDescending scoreOf ?matches) = length ?matches"
    by (simp add: sortDescending_def)
  moreover have "?matches \<noteq> []" using assms by simp
  ultimately have "sortDescending scoreOf ?matches \<noteq> []"
    by (metis length_0_conv)
  then show ?thesis by (simp add: scoredMatches_def Let_def)
qed

lemma slice0_take: "0 \<le> n \<Longrightarrow> slice0 xs n = take (nat n) xs"
  by (simp add: slice0_def)

lemma chapterResultOf_Some:
  assumes "chapterResultOf fs queryWords bookDir c = Some r"
  shows "\<exists>cached. getCachedContent fs (r_chapter r) = Some cached
           \<and> r_matches r = take 2 (scoredMatches queryWords (r_metadataScore r) (r_metadata r)
                                      (ec_textChunks cached))
           \<and> r_matches r \<noteq> []"
proof -
  obtain f score md where c: "c = (f, score, md)" by (cases c)
  from assms obtain cached where cached: "getCachedContent fs f = Some cached"
    unfolding c chapterResultOf_def by (auto split: option.splits)
  let ?ms = "scoredMatches queryWords score md (ec_textChunks cached)"
  have r: "?ms \<noteq> []" "r_chapter r = f" "r_metadataScore r = score" "r_metadata r = md"
    "r_matches r = take 2 ?ms"
    using assms cached unfolding c chapterResultOf_def
    by (auto simp: Let_def slice0_take split: if_splits)
  then have "r_matches r \<noteq> []" by (cases ?ms) simp_all
  then show ?thesis using cached r by auto
qed

lemma allResults_member:
  assumes "allResults fs queryWords dirs = Some results" and "r \<in> set results"
  shows "\<exists>bookDir c. chapterResultOf fs queryWords bookDir c = Some r"
  using assms
proof (induction dirs arbitrary: results)
  case Nil
  then show ?case by simp
next
  case (Cons bookDir dirs)
  then obtain pushed more where p: "bookResults fs queryWords bookDir = Some pushed"
    "allResults fs queryWords dirs = Some more" "results = pushed @ more"
    by (auto split: option.splits)
  show ?case
  proof (cases "r \<in> set pushed")
    case True
    then obtain c where "chapterResultOf fs queryWords bookDir c = Some r"
      using p(1) by (auto simp: bookResults_def List.map_filter_def split: option.splits if_splits)
    then show ?thesis by blast
  next
    case False
    then have "r \<in> set more" using Cons.prems(2) p(3) by simp
    then show ?thesis using Cons.IH[OF p(2)] by blast
  qed
qed

lemma renderResult_Inr:
  assumes "renderResult queryWords r = Inr y"
  shows "rr_result y = r"
    and "rr_evidence y = map (\<lambda>m. (m, getContextSnippet (matchText m) queryWords CONTEXT_WINDOW)) (r_matches r)"
  using assms by (auto simp: renderResult_def split: list.splits sum.splits)

text \<open>
  When a search with \<open>maxResults \<ge> 0\<close> renders results: the rendered results are the
  first \<open>maxResults\<close> of the chapter results, so at most \<open>maxResults\<close> and exactly
  \<open>min maxResults\<close> (number of chapter results); the chapter results, and so the rendered
  ones, are in descending order of their best match's score; every chapter result has one
  or two matches in descending order of score, its best score is that of its first match,
  its matches are the first two of the chapter's scored matches sorted by descending
  score, and no other scored match of the chapter has a higher score than one of them;
  when a chunk of the chapter matches the query, the scored matches are the matching
  chunks with their scores.
\<close>

lemma search_ranking:
  assumes "bookDirs fs = Some dirs" and "0 \<le> maxResults"
    and "searchContent fs query maxResults = Rendered n rendered"
  shows "\<exists>results. searchResults fs (tokenize query) dirs = Some results
          \<and> n = length results
          \<and> map rr_result rendered = take (nat maxResults) results
          \<and> length rendered = min (nat maxResults) (length results)
          \<and> descending maxScore results
          \<and> descending maxScore (map rr_result rendered)
          \<and> (\<forall>r \<in> set results.
                r_matches r \<noteq> [] \<and> length (r_matches r) \<le> 2 \<and> descending scoreOf (r_matches r)
                \<and> maxScore r = scoreOf (hd (r_matches r))
                \<and> (\<exists>cached.
                       getCachedContent fs (r_chapter r) = Some cached
                     \<and> (let scored = scoredMatches (tokenize query) (r_metadataScore r) (r_metadata r)
                                        (ec_textChunks cached)
                        in r_matches r = take 2 scored
                           \<and> (\<forall>kept \<in> set (r_matches r). \<forall>dropped \<in> set (drop 2 scored).
                                 scoreOf dropped \<le> scoreOf kept)
                           \<and> (filter (chunkMatches (tokenize query)) (ec_textChunks cached) \<noteq> [] \<longrightarrow>
                                scored = sortDescending scoreOf
                                  (map (\<lambda>c. ChunkMatch c (chunkScore (r_metadataScore r) (tokenize query) c))
                                     (filter (chunkMatches (tokenize query)) (ec_textChunks cached)))))))"
proof -
  obtain results where results: "searchResults fs (tokenize query) dirs = Some results"
    and ne: "results \<noteq> []"
    and coll: "collect (map (renderResult (tokenize query)) (slice0 results maxResults)) = Inr rendered"
    and n: "n = length results"
    using assms(1,3) unfolding searchContent_def
    by (auto simp: Let_def split: option.splits if_splits sum.splits)
  have shown: "map rr_result rendered = take (nat maxResults) results"
    using collect_map_inverse[OF renderResult_Inr(1) coll] assms(2) by (simp add: slice0_take)
  then have len: "length rendered = min (nat maxResults) (length results)"
    by (metis length_map length_take min.commute)
  obtain pushed where pushed: "allResults fs (tokenize query) dirs = Some pushed"
    "results = sortDescending maxScore pushed"
    using results unfolding searchResults_def by auto
  have sorted: "descending maxScore results"
    unfolding pushed(2) by (rule sortDescending_descending)
  have each: "r_matches r \<noteq> [] \<and> length (r_matches r) \<le> 2 \<and> descending scoreOf (r_matches r)
                \<and> maxScore r = scoreOf (hd (r_matches r))
                \<and> (\<exists>cached.
                       getCachedContent fs (r_chapter r) = Some cached
                     \<and> (let scored = scoredMatches (tokenize query) (r_metadataScore r) (r_metadata r)
                                        (ec_textChunks cached)
                        in r_matches r = take 2 scored
                           \<and> (\<forall>kept \<in> set (r_matches r). \<forall>dropped \<in> set (drop 2 scored).
                                 scoreOf dropped \<le> scoreOf kept)
                           \<and> (filter (chunkMatches (tokenize query)) (ec_textChunks cached) \<noteq> [] \<longrightarrow>
                                scored = sortDescending scoreOf
                                  (map (\<lambda>c. ChunkMatch c (chunkScore (r_metadataScore r) (tokenize query) c))
                                     (filter (chunkMatches (tokenize query)) (ec_textChunks cached))))))"
    if mem: "r \<in> set results" for r
  proof -
    have "r \<in> set pushed" using mem pushed(2) by simp
    then obtain bookDir c where "chapterResultOf fs (tokenize query) bookDir c = Some r"
      using allResults_member[OF pushed(1)] by blast
    then obtain cached where m: "getCachedContent fs (r_chapter r) = Some cached"
      "r_matches r = take 2 (scoredMatches (tokenize query) (r_metadataScore r) (r_metadata r)
                               (ec_textChunks cached))"
      "r_matches r \<noteq> []"
      using chapterResultOf_Some by blast
    let ?scored = "scoredMatches (tokenize query) (r_metadataScore r) (r_metadata r) (ec_textChunks cached)"
    have d: "descending scoreOf (r_matches r)"
      unfolding m(2) by (intro descending_take scoredMatches_descending)
    have l: "length (r_matches r) \<le> 2" unfolding m(2) by simp
    have mx: "maxScore r = scoreOf (hd (r_matches r))"
    proof -
      obtain x xs where x: "r_matches r = x # xs" using m(3) by (cases "r_matches r") auto
      then have "\<forall>y \<in> set xs. scoreOf y \<le> scoreOf x" using d by (simp add: descending_def)
      then have "Max (set (map scoreOf (x # xs))) = scoreOf x"
        by (intro Max_eqI) auto
      then show ?thesis by (simp add: maxScore_def x)
    qed
    have best: "\<forall>kept \<in> set (r_matches r). \<forall>dropped \<in> set (drop 2 ?scored). scoreOf dropped \<le> scoreOf kept"
      unfolding m(2) using descending_take_drop[OF scoredMatches_descending] by blast
    have chunks: "filter (chunkMatches (tokenize query)) (ec_textChunks cached) \<noteq> [] \<longrightarrow>
        ?scored = sortDescending scoreOf
          (map (\<lambda>c. ChunkMatch c (chunkScore (r_metadataScore r) (tokenize query) c))
             (filter (chunkMatches (tokenize query)) (ec_textChunks cached)))"
      using scoredMatches_chunks by blast
    show ?thesis
      unfolding Let_def using m(1,2,3) d l mx best chunks by blast
  qed
  have "descending maxScore (map rr_result rendered)"
    unfolding shown by (rule descending_take[OF sorted])
  then show ?thesis
    using results n shown len sorted each by blast
qed

end
